theory Spec2Isabelle
  imports Main "HOL-Library.Char_ord" "HOL-Library.List_Lexorder" "HOL-Library.Multiset"
begin

section \<open>Conflict formset views of adjallocation/views.py\<close>

subsection \<open>Entities read by the views\<close>

text \<open>
  The views read three participant models and four conflict relations. A related object
  reached through a foreign key (\<open>conflict.adjudicator\<close>) is held in the row, as the
  ORM presents it. A tournament and a user are identified by their primary keys.
\<close>

type_synonym tournament = nat
type_synonym user = nat

record Institution =
  institution_id :: nat
  institution_name :: string

record Adjudicator =
  adjudicator_id :: nat
  adjudicator_name :: string
  adjudicator_tournament :: tournament

record Team =
  team_id :: nat
  short_name :: string
  code_name :: string
  team_tournament :: tournament

text \<open>The four views, and what each declares as class attributes.\<close>

datatype view =
    AdjudicatorTeamConflictsView
  | AdjudicatorAdjudicatorConflictsView
  | AdjudicatorInstitutionConflictsView
  | TeamInstitutionConflictsView

datatype Permission =
    VIEW_ADJ_TEAM_CONFLICTS | EDIT_ADJ_TEAM_CONFLICTS
  | VIEW_ADJ_ADJ_CONFLICTS | EDIT_ADJ_ADJ_CONFLICTS
  | VIEW_ADJ_INST_CONFLICTS | EDIT_ADJ_INST_CONFLICTS
  | VIEW_TEAM_INST_CONFLICTS | EDIT_TEAM_INST_CONFLICTS

fun edit_permission :: "view \<Rightarrow> Permission" where
  "edit_permission AdjudicatorTeamConflictsView = EDIT_ADJ_TEAM_CONFLICTS"
| "edit_permission AdjudicatorAdjudicatorConflictsView = EDIT_ADJ_ADJ_CONFLICTS"
| "edit_permission AdjudicatorInstitutionConflictsView = EDIT_ADJ_INST_CONFLICTS"
| "edit_permission TeamInstitutionConflictsView = EDIT_TEAM_INST_CONFLICTS"

fun same_view :: "view \<Rightarrow> string" where
  "same_view AdjudicatorTeamConflictsView = ''adjallocation-conflicts-adj-team''"
| "same_view AdjudicatorAdjudicatorConflictsView = ''adjallocation-conflicts-adj-adj''"
| "same_view AdjudicatorInstitutionConflictsView = ''adjallocation-conflicts-adj-inst''"
| "same_view TeamInstitutionConflictsView = ''adjallocation-conflicts-team-inst''"

subsection \<open>Flash messages\<close>

text \<open>
  \<open>"... %(count)d ..." % {'count': n}\<close> writes \<open>n\<close> in decimal at the placeholder. A
  message text with the placeholder is a function of the count.
\<close>

function decimal :: "nat \<Rightarrow> string" where
  "decimal n =
     (if n < 10 then [char_of (48 + n)]
      else decimal (n div 10) @ [char_of (48 + n mod 10)])"
  by pat_completeness auto
termination
  by (relation "measure id") auto

declare decimal.simps [simp del]

text \<open>
  \<open>ngettext\<close> with no translation catalogue active chooses the singular text for a count
  of one and the plural text otherwise; \<open>gettext\<close> returns its argument.
\<close>

definition ngettext :: "'a \<Rightarrow> 'a \<Rightarrow> nat \<Rightarrow> 'a" where
  "ngettext singular plural n = (if n = 1 then singular else plural)"

definition gettext :: "string \<Rightarrow> string" where
  "gettext s = s"

datatype level = SUCCESS

type_synonym message_storage = "(level \<times> string) list"

definition messages_success :: "message_storage \<Rightarrow> string \<Rightarrow> message_storage" where
  "messages_success storage text = storage @ [(SUCCESS, text)]"

definition AdjudicatorTeamConflictsView_add_message ::
  "message_storage \<Rightarrow> nat \<Rightarrow> nat \<Rightarrow> message_storage" where
  "AdjudicatorTeamConflictsView_add_message request nsaved ndeleted =
     (let request =
        (if nsaved > 0 then messages_success request (ngettext
            (\<lambda>count. ''Saved '' @ decimal count @ '' adjudicator-team conflict.'')
            (\<lambda>count. ''Saved '' @ decimal count @ '' adjudicator-team conflicts.'')
            nsaved nsaved)
         else request);
          request =
        (if ndeleted > 0 then messages_success request (ngettext
            (\<lambda>count. ''Deleted '' @ decimal count @ '' adjudicator-team conflict.'')
            (\<lambda>count. ''Deleted '' @ decimal count @ '' adjudicator-team conflicts.'')
            ndeleted ndeleted)
         else request)
      in if nsaved = 0 \<and> ndeleted = 0
         then messages_success request
                (gettext ''No changes were made to adjudicator-team conflicts.'')
         else request)"

definition AdjudicatorAdjudicatorConflictsView_add_message ::
  "message_storage \<Rightarrow> nat \<Rightarrow> nat \<Rightarrow> message_storage" where
  "AdjudicatorAdjudicatorConflictsView_add_message request nsaved ndeleted =
     (let request =
        (if nsaved > 0 then messages_success request (ngettext
            (\<lambda>count. ''Saved '' @ decimal count @ '' adjudicator-adjudicator conflict.'')
            (\<lambda>count. ''Saved '' @ decimal count @ '' adjudicator-adjudicator conflicts.'')
            nsaved nsaved)
         else request);
          request =
        (if ndeleted > 0 then messages_success request (ngettext
            (\<lambda>count. ''Deleted '' @ decimal count @ '' adjudicator-adjudicator conflict.'')
            (\<lambda>count. ''Deleted '' @ decimal count @ '' adjudicator-adjudicator conflicts.'')
            ndeleted ndeleted)
         else request)
      in if nsaved = 0 \<and> ndeleted = 0
         then messages_success request
                (gettext ''No changes were made to adjudicator-adjudicator conflicts.'')
         else request)"

definition AdjudicatorInstitutionConflictsView_add_message ::
  "message_storage \<Rightarrow> nat \<Rightarrow> nat \<Rightarrow> message_storage" where
  "AdjudicatorInstitutionConflictsView_add_message request nsaved ndeleted =
     (let request =
        (if nsaved > 0 then messages_success request (ngettext
            (\<lambda>count. ''Saved '' @ decimal count @ '' adjudicator-institution conflict.'')
            (\<lambda>count. ''Saved '' @ decimal count @ '' adjudicator-institution conflicts.'')
            nsaved nsaved)
         else request);
          request =
        (if ndeleted > 0 then messages_success request (ngettext
            (\<lambda>count. ''Deleted '' @ decimal count @ '' adjudicator-institution conflict.'')
            (\<lambda>count. ''Deleted '' @ decimal count @ '' adjudicator-institution conflicts.'')
            ndeleted ndeleted)
         else request)
      in if nsaved = 0 \<and> ndeleted = 0
         then messages_success request
                (gettext ''No changes were made to adjudicator-institution conflicts.'')
         else request)"

definition TeamInstitutionConflictsView_add_message ::
  "message_storage \<Rightarrow> nat \<Rightarrow> nat \<Rightarrow> message_storage" where
  "TeamInstitutionConflictsView_add_message request nsaved ndeleted =
     (let request =
        (if nsaved > 0 then messages_success request (ngettext
            (\<lambda>count. ''Saved '' @ decimal count @ '' team-institution conflict.'')
            (\<lambda>count. ''Saved '' @ decimal count @ '' team-institution conflicts.'')
            nsaved nsaved)
         else request);
          request =
        (if ndeleted > 0 then messages_success request (ngettext
            (\<lambda>count. ''Deleted '' @ decimal count @ '' team-institution conflict.'')
            (\<lambda>count. ''Deleted '' @ decimal count @ '' team-institution conflicts.'')
            ndeleted ndeleted)
         else request)
      in if nsaved = 0 \<and> ndeleted = 0
         then messages_success request
                (gettext ''No changes were made to team-institution conflicts.'')
         else request)"

text \<open>Method dispatch: \<open>self.add_message\<close> is the method of the view's own class.\<close>

fun add_message :: "view \<Rightarrow> message_storage \<Rightarrow> nat \<Rightarrow> nat \<Rightarrow> message_storage" where
  "add_message AdjudicatorTeamConflictsView = AdjudicatorTeamConflictsView_add_message"
| "add_message AdjudicatorAdjudicatorConflictsView =
     AdjudicatorAdjudicatorConflictsView_add_message"
| "add_message AdjudicatorInstitutionConflictsView =
     AdjudicatorInstitutionConflictsView_add_message"
| "add_message TeamInstitutionConflictsView = TeamInstitutionConflictsView_add_message"

subsection \<open>Tables and querysets\<close>

record AdjudicatorTeamConflict =
  atc_id :: nat
  atc_adjudicator :: Adjudicator
  atc_team :: Team

record AdjudicatorAdjudicatorConflict =
  aac_id :: nat
  adjudicator1 :: Adjudicator
  adjudicator2 :: Adjudicator

record AdjudicatorInstitutionConflict =
  aic_id :: nat
  aic_adjudicator :: Adjudicator
  aic_institution :: Institution

record TeamInstitutionConflict =
  tic_id :: nat
  tic_team :: Team
  tic_institution :: Institution

text \<open>\<open>Model.objects.all()\<close> of each model: the table, in the model's default order.\<close>

record database =
  Adjudicator_objects :: "Adjudicator list"
  Team_objects :: "Team list"
  Institution_objects :: "Institution list"
  AdjudicatorTeamConflict_objects :: "AdjudicatorTeamConflict list"
  AdjudicatorAdjudicatorConflict_objects :: "AdjudicatorAdjudicatorConflict list"
  AdjudicatorInstitutionConflict_objects :: "AdjudicatorInstitutionConflict list"
  TeamInstitutionConflict_objects :: "TeamInstitutionConflict list"

text \<open>
  \<open>queryset.order_by('key')\<close> sorts ascending by the key. Rows with equal keys are kept
  in the order of the queryset they come from and names are compared character by
  character, where a database may do either otherwise; nothing proved below depends on
  the order of equal keys.
  \<open>tournament.adjudicator_set\<close> and \<open>tournament.team_set\<close> are the reverse side of the
  foreign key: the rows whose tournament is this one.
\<close>

definition order_by :: "('a \<Rightarrow> string) \<Rightarrow> 'a list \<Rightarrow> 'a list" where
  "order_by key rows = sort_key key rows"

definition adjudicator_set :: "database \<Rightarrow> tournament \<Rightarrow> Adjudicator list" where
  "adjudicator_set db t = filter (\<lambda>a. adjudicator_tournament a = t) (Adjudicator_objects db)"

definition team_set :: "database \<Rightarrow> tournament \<Rightarrow> Team list" where
  "team_set db t = filter (\<lambda>a. team_tournament a = t) (Team_objects db)"

definition AdjudicatorTeamConflictsView_get_formset_queryset ::
  "database \<Rightarrow> tournament \<Rightarrow> AdjudicatorTeamConflict list" where
  "AdjudicatorTeamConflictsView_get_formset_queryset db t =
     order_by (\<lambda>c. adjudicator_name (atc_adjudicator c))
       (filter (\<lambda>c. adjudicator_tournament (atc_adjudicator c) = t)
          (AdjudicatorTeamConflict_objects db))"

definition AdjudicatorAdjudicatorConflictsView_get_formset_queryset ::
  "database \<Rightarrow> tournament \<Rightarrow> AdjudicatorAdjudicatorConflict list" where
  "AdjudicatorAdjudicatorConflictsView_get_formset_queryset db t =
     order_by (\<lambda>c. adjudicator_name (adjudicator1 c))
       (filter (\<lambda>c. adjudicator_tournament (adjudicator1 c) = t)
          (AdjudicatorAdjudicatorConflict_objects db))"

definition AdjudicatorInstitutionConflictsView_get_formset_queryset ::
  "database \<Rightarrow> tournament \<Rightarrow> AdjudicatorInstitutionConflict list" where
  "AdjudicatorInstitutionConflictsView_get_formset_queryset db t =
     order_by (\<lambda>c. adjudicator_name (aic_adjudicator c))
       (filter (\<lambda>c. adjudicator_tournament (aic_adjudicator c) = t)
          (AdjudicatorInstitutionConflict_objects db))"

definition TeamInstitutionConflictsView_get_formset_queryset ::
  "database \<Rightarrow> tournament \<Rightarrow> TeamInstitutionConflict list" where
  "TeamInstitutionConflictsView_get_formset_queryset db t =
     order_by (\<lambda>c. short_name (tic_team c))
       (filter (\<lambda>c. team_tournament (tic_team c) = t)
          (TeamInstitutionConflict_objects db))"

subsection \<open>Choice fields\<close>

datatype model_instance =
    AdjudicatorObj Adjudicator
  | TeamObj Team
  | InstitutionObj Institution

fun pk :: "model_instance \<Rightarrow> nat" where
  "pk (AdjudicatorObj a) = adjudicator_id a"
| "pk (TeamObj t) = team_id t"
| "pk (InstitutionObj i) = institution_id i"

text \<open>
  A form field. \<open>BooleanField\<close> and \<open>OtherField\<close> stand for the fields the formset adds
  by itself: the deletion checkbox and the hidden primary key. \<open>use_code_names\<close> is an
  attribute the views set on a field after its construction: \<open>None\<close> until then.
\<close>

datatype field_class = DedupModelChoiceField | TeamChoiceField | BooleanField | OtherField

record field =
  field_class :: field_class
  disabled :: bool
  empty_label :: "string option"
  queryset :: "model_instance list"
  use_code_names :: "bool option"

datatype error = KeyError string | AttributeError string

text \<open>
  \<open>DedupModelChoiceField._set_queryset\<close> stores the queryset and points the widget's
  choices at \<open>self.choices\<close>, an iterator over the field that is run when the options are
  rendered: the options are a function of the field (\<open>DedupModelChoiceIterator_iter\<close>).
\<close>

definition set_queryset :: "model_instance list \<Rightarrow> field \<Rightarrow> field" where
  "set_queryset qs f = f\<lparr>queryset := qs\<rparr>"

definition TeamChoiceField_label_from_instance ::
  "field \<Rightarrow> model_instance \<Rightarrow> error + string" where
  "TeamChoiceField_label_from_instance self obj =
     (case use_code_names self of
        None \<Rightarrow> Inl (AttributeError ''use_code_names'')
      | Some b \<Rightarrow>
          (case obj of
             TeamObj t \<Rightarrow> Inr (if b then code_name t else short_name t)
           | _ \<Rightarrow> Inl (AttributeError (if b then ''code_name'' else ''short_name''))))"

text \<open>
  The label of the other choice fields is \<open>str(obj)\<close>, which the models define: a
  parameter. A choice is the pair of the option's value (the row's primary key, wrapped
  with the row) and its label, as the inherited \<open>ModelChoiceIterator.choice\<close> builds it.
\<close>

definition label_from_instance ::
  "(model_instance \<Rightarrow> string) \<Rightarrow> field \<Rightarrow> model_instance \<Rightarrow> error + string" where
  "label_from_instance str self obj =
     (case field_class self of
        TeamChoiceField \<Rightarrow> TeamChoiceField_label_from_instance self obj
      | _ \<Rightarrow> Inr (str obj))"

datatype choice_value = Str string | ModelChoiceIteratorValue nat model_instance

type_synonym choice = "choice_value \<times> string"

definition choice ::
  "(model_instance \<Rightarrow> string) \<Rightarrow> field \<Rightarrow> model_instance \<Rightarrow> error + choice" where
  "choice str self obj =
     (case label_from_instance str self obj of
        Inl e \<Rightarrow> Inl e
      | Inr label \<Rightarrow> Inr (ModelChoiceIteratorValue (pk obj) obj, label))"

fun yield_choices ::
  "(model_instance \<Rightarrow> error + choice) \<Rightarrow> model_instance list \<Rightarrow> error + choice list" where
  "yield_choices ch [] = Inr []"
| "yield_choices ch (obj # rest) =
     (case ch obj of
        Inl e \<Rightarrow> Inl e
      | Inr c \<Rightarrow> (case yield_choices ch rest of Inl e \<Rightarrow> Inl e | Inr cs \<Rightarrow> Inr (c # cs)))"

text \<open>
  \<open>DedupModelChoiceIterator.__iter__\<close>, run to its end: the items it yields, in order, or
  the exception that a label raised.
\<close>

definition DedupModelChoiceIterator_iter ::
  "(model_instance \<Rightarrow> string) \<Rightarrow> field \<Rightarrow> error + choice list" where
  "DedupModelChoiceIterator_iter str fld =
     (case yield_choices (choice str fld) (queryset fld) of
        Inl e \<Rightarrow> Inl e
      | Inr cs \<Rightarrow>
          Inr ((case empty_label fld of None \<Rightarrow> [] | Some l \<Rightarrow> [(Str [], l)]) @ cs))"

text \<open>Iterating the options of one field \<open>n\<close> times in a row: the list of the \<open>n\<close> results.\<close>

fun iterations :: "nat \<Rightarrow> (model_instance \<Rightarrow> string) \<Rightarrow> field \<Rightarrow> (error + choice list) list" where
  "iterations 0 str fld = []"
| "iterations (Suc n) str fld = DedupModelChoiceIterator_iter str fld # iterations n str fld"

subsection \<open>Requests, forms and formsets\<close>

record request =
  user :: user
  POST :: "(string \<times> string) list"

text \<open>
  A form of the formset: its fields by name (\<open>form.fields\<close>), the stored row it edits
  (none for an extra blank form), the values of that row (\<open>form.initial\<close>) and the values
  submitted for it (\<open>form.data\<close>). A formset is the list of its forms.
\<close>

record 'row form =
  form_fields :: "(string \<times> field) list"
  form_instance :: "'row option"
  initial :: "(string \<times> string) list"
  data :: "(string \<times> string) list"

text \<open>
  The collaborators the views call and this file does not define: the permission lookup,
  the code-name preference lookup and the URL reversal.
\<close>

record externals =
  has_permission :: "user \<Rightarrow> Permission \<Rightarrow> tournament \<Rightarrow> bool"
  use_team_code_names :: "tournament \<Rightarrow> bool \<Rightarrow> user \<Rightarrow> bool"
  reverse_tournament :: "string \<Rightarrow> tournament \<Rightarrow> string"

text \<open>
  The keyword arguments of the formset factory. The class attribute of each view gives
  \<open>fields\<close> and \<open>field_classes\<close>; \<open>extra\<close> and \<open>can_delete\<close> are absent from it.
\<close>

record factory_kwargs =
  kw_fields :: "string list"
  kw_field_classes :: "(string \<times> field_class) list"
  extra :: "nat option"
  can_delete :: "bool option"

fun formset_factory_kwargs :: "view \<Rightarrow> factory_kwargs" where
  "formset_factory_kwargs AdjudicatorTeamConflictsView =
     \<lparr>kw_fields = [''adjudicator'', ''team''],
      kw_field_classes = [(''adjudicator'', DedupModelChoiceField), (''team'', TeamChoiceField)],
      extra = None, can_delete = None\<rparr>"
| "formset_factory_kwargs AdjudicatorAdjudicatorConflictsView =
     \<lparr>kw_fields = [''adjudicator1'', ''adjudicator2''],
      kw_field_classes =
        [(''adjudicator1'', DedupModelChoiceField), (''adjudicator2'', DedupModelChoiceField)],
      extra = None, can_delete = None\<rparr>"
| "formset_factory_kwargs AdjudicatorInstitutionConflictsView =
     \<lparr>kw_fields = [''adjudicator'', ''institution''],
      kw_field_classes =
        [(''adjudicator'', DedupModelChoiceField), (''institution'', DedupModelChoiceField)],
      extra = None, can_delete = None\<rparr>"
| "formset_factory_kwargs TeamInstitutionConflictsView =
     \<lparr>kw_fields = [''team'', ''institution''],
      kw_field_classes = [(''team'', TeamChoiceField), (''institution'', DedupModelChoiceField)],
      extra = None, can_delete = None\<rparr>"

text \<open>\<open>get_edit_permission\<close> of the administrator mixin reads the class attribute.\<close>

definition get_edit_permission :: "view \<Rightarrow> Permission" where
  "get_edit_permission self = edit_permission self"

text \<open>
  \<open>BaseAdjudicatorConflictsView.get_formset_factory_kwargs\<close>; the parent's method returns a
  copy of the class attribute. \<open>int(can_edit)\<close> is 1 for \<open>True\<close> and 0 for \<open>False\<close>.
\<close>

definition get_formset_factory_kwargs ::
  "externals \<Rightarrow> view \<Rightarrow> request \<Rightarrow> tournament \<Rightarrow> factory_kwargs" where
  "get_formset_factory_kwargs ext self req t =
     (let can_edit = has_permission ext (user req) (get_edit_permission self) t;
          kwargs = formset_factory_kwargs self;
          kwargs = kwargs\<lparr>extra := Some (10 * of_bool can_edit)\<rparr>;
          kwargs = kwargs\<lparr>can_delete := Some can_edit\<rparr>
      in kwargs)"

text \<open>
  \<open>BaseAdjudicatorConflictsView.get_formset\<close>. Its argument \<open>formset\<close> is what the parent's
  \<open>get_formset\<close> returned: the formset that the framework built for the request.
\<close>

definition BaseAdjudicatorConflictsView_get_formset ::
  "externals \<Rightarrow> view \<Rightarrow> request \<Rightarrow> tournament \<Rightarrow> 'row form list \<Rightarrow> 'row form list" where
  "BaseAdjudicatorConflictsView_get_formset ext self req t formset =
     (if \<not> has_permission ext (user req) (get_edit_permission self) t
      then map (\<lambda>form. form\<lparr>form_fields :=
                  map (\<lambda>(name, fld). (name, fld\<lparr>disabled := True\<rparr>)) (form_fields form)\<rparr>) formset
      else formset)"

text \<open>
  \<open>form.fields[key].attr = value\<close>: a \<open>KeyError\<close> when the form has no such field.
\<close>

definition assign_field :: "string \<Rightarrow> (field \<Rightarrow> field) \<Rightarrow> 'row form \<Rightarrow> 'row form" where
  "assign_field key assign form =
     form\<lparr>form_fields :=
            map (\<lambda>(name, fld). if name = key then (name, assign fld) else (name, fld))
              (form_fields form)\<rparr>"

definition setattr_field ::
  "string \<Rightarrow> (field \<Rightarrow> field) \<Rightarrow> 'row form \<Rightarrow> error + 'row form" where
  "setattr_field key assign form =
     (case map_of (form_fields form) key of
        None \<Rightarrow> Inl (KeyError key)
      | Some _ \<Rightarrow> Inr (assign_field key assign form))"

definition and_then :: "error + 'a \<Rightarrow> ('a \<Rightarrow> error + 'b) \<Rightarrow> error + 'b" where
  "and_then r f = (case r of Inl e \<Rightarrow> Inl e | Inr x \<Rightarrow> f x)"

fun for_each :: "('a \<Rightarrow> error + 'a) \<Rightarrow> 'a list \<Rightarrow> error + 'a list" where
  "for_each body [] = Inr []"
| "for_each body (x # xs) =
     and_then (body x) (\<lambda>y. and_then (for_each body xs) (\<lambda>ys. Inr (y # ys)))"

definition AdjudicatorTeamConflictsView_get_formset ::
  "externals \<Rightarrow> database \<Rightarrow> request \<Rightarrow> tournament \<Rightarrow> 'row form list \<Rightarrow> error + 'row form list"
  where
  "AdjudicatorTeamConflictsView_get_formset ext db req t formset =
     (let formset = BaseAdjudicatorConflictsView_get_formset ext
                      AdjudicatorTeamConflictsView req t formset;
          all_adjs = order_by adjudicator_name (adjudicator_set db t);
          use_code_names = use_team_code_names ext t True (user req);
          all_teams = order_by (if use_code_names then code_name else short_name) (team_set db t)
      in for_each (\<lambda>form.
           and_then (setattr_field ''adjudicator''
                       (set_queryset (map AdjudicatorObj all_adjs)) form) (\<lambda>form.
           and_then (setattr_field ''team'' (set_queryset (map TeamObj all_teams)) form) (\<lambda>form.
           setattr_field ''team'' (\<lambda>fld. fld\<lparr>use_code_names := Some use_code_names\<rparr>) form)))
         formset)"

definition AdjudicatorAdjudicatorConflictsView_get_formset ::
  "externals \<Rightarrow> database \<Rightarrow> request \<Rightarrow> tournament \<Rightarrow> 'row form list \<Rightarrow> error + 'row form list"
  where
  "AdjudicatorAdjudicatorConflictsView_get_formset ext db req t formset =
     (let formset = BaseAdjudicatorConflictsView_get_formset ext
                      AdjudicatorAdjudicatorConflictsView req t formset;
          all_adjs = order_by adjudicator_name (adjudicator_set db t)
      in for_each (\<lambda>form.
           and_then (setattr_field ''adjudicator1''
                       (set_queryset (map AdjudicatorObj all_adjs)) form) (\<lambda>form.
           setattr_field ''adjudicator2'' (set_queryset (map AdjudicatorObj all_adjs)) form))
         formset)"

definition AdjudicatorInstitutionConflictsView_get_formset ::
  "externals \<Rightarrow> database \<Rightarrow> request \<Rightarrow> tournament \<Rightarrow> 'row form list \<Rightarrow> error + 'row form list"
  where
  "AdjudicatorInstitutionConflictsView_get_formset ext db req t formset =
     (let formset = BaseAdjudicatorConflictsView_get_formset ext
                      AdjudicatorInstitutionConflictsView req t formset;
          all_adjs = order_by adjudicator_name (adjudicator_set db t);
          insts = Institution_objects db
      in for_each (\<lambda>form.
           and_then (setattr_field ''adjudicator''
                       (set_queryset (map AdjudicatorObj all_adjs)) form) (\<lambda>form.
           setattr_field ''institution'' (set_queryset (map InstitutionObj insts)) form))
         formset)"

text \<open>
  In the team-institution view the queryset ordered by the displayed name is computed and
  then replaced, on the next line, by the one ordered by short name.
\<close>

definition TeamInstitutionConflictsView_get_formset ::
  "externals \<Rightarrow> database \<Rightarrow> request \<Rightarrow> tournament \<Rightarrow> 'row form list \<Rightarrow> error + 'row form list"
  where
  "TeamInstitutionConflictsView_get_formset ext db req t formset =
     (let formset = BaseAdjudicatorConflictsView_get_formset ext
                      TeamInstitutionConflictsView req t formset;
          use_code_names = use_team_code_names ext t True (user req);
          all_teams = order_by (if use_code_names then code_name else short_name) (team_set db t);
          all_teams = order_by short_name (team_set db t);
          insts = Institution_objects db
      in for_each (\<lambda>form.
           and_then (setattr_field ''team'' (set_queryset (map TeamObj all_teams)) form) (\<lambda>form.
           and_then (setattr_field ''team''
                       (\<lambda>fld. fld\<lparr>use_code_names := Some use_code_names\<rparr>) form) (\<lambda>form.
           setattr_field ''institution'' (set_queryset (map InstitutionObj insts)) form)))
         formset)"

fun get_formset ::
  "view \<Rightarrow> externals \<Rightarrow> database \<Rightarrow> request \<Rightarrow> tournament \<Rightarrow> 'row form list \<Rightarrow>
     error + 'row form list" where
  "get_formset AdjudicatorTeamConflictsView = AdjudicatorTeamConflictsView_get_formset"
| "get_formset AdjudicatorAdjudicatorConflictsView =
     AdjudicatorAdjudicatorConflictsView_get_formset"
| "get_formset AdjudicatorInstitutionConflictsView =
     AdjudicatorInstitutionConflictsView_get_formset"
| "get_formset TeamInstitutionConflictsView = TeamInstitutionConflictsView_get_formset"

subsection \<open>Building the formset\<close>

text \<open>
  Modelled from the spec: the cleaned management form of a formset bound to a POST
  payload, which declares how many forms the payload holds and how many of them edit
  stored rows. The parent's \<open>get_formset\<close> (\<open>ModelFormSetView\<close>, utils/views.py) and the
  formset factory under it build the formset; neither is in this file.
\<close>

record management_form =
  TOTAL_FORMS :: nat
  INITIAL_FORMS :: nat

text \<open>
  Modelled from the spec: the factory's limit on the number of forms, which the views
  leave at its default.
\<close>

definition DEFAULT_MAX_NUM :: nat where
  "DEFAULT_MAX_NUM = 1000"

text \<open>
  Modelled from the spec: the number of forms that edit stored rows. A formset shown for a
  GET has one per editable row; a bound formset has as many as its payload declares.
\<close>

definition initial_form_count :: "management_form option \<Rightarrow> 'row list \<Rightarrow> nat" where
  "initial_form_count bound rows =
     (case bound of
        None \<Rightarrow> length rows
      | Some management \<Rightarrow> INITIAL_FORMS management)"

text \<open>
  Modelled from the spec: the number of forms. A formset shown for a GET has the forms of
  the editable rows and then \<open>extra\<close> blank ones (one where the keyword is absent) as
  long as the total stays within the limit; a bound formset has as many forms as its
  payload declares, up to the limit and a thousand more.
\<close>

definition total_form_count ::
  "factory_kwargs \<Rightarrow> management_form option \<Rightarrow> 'row list \<Rightarrow> nat" where
  "total_form_count kwargs bound rows =
     (case bound of
        Some management \<Rightarrow> min (TOTAL_FORMS management) (DEFAULT_MAX_NUM + DEFAULT_MAX_NUM)
      | None \<Rightarrow>
          (let initial_forms = length rows;
               total_forms = initial_forms + (case extra kwargs of None \<Rightarrow> 1 | Some n \<Rightarrow> n)
           in if initial_forms > DEFAULT_MAX_NUM then initial_forms
              else if total_forms > DEFAULT_MAX_NUM then DEFAULT_MAX_NUM
              else total_forms))"

text \<open>
  Modelled from the spec: a field as the form layer builds it, enabled; its choices are
  assigned by the views.
\<close>

definition new_field :: "field_class \<Rightarrow> field" where
  "new_field c =
     \<lparr>field_class = c, disabled = False,
      empty_label = (if c = BooleanField then None else Some ''---------''),
      queryset = [], use_code_names = None\<rparr>"

text \<open>
  Modelled from the spec: the fields of every form of the formset: the fields the view
  declares, with their classes, the hidden primary key, and the deletion checkbox where
  row deletion is enabled.
\<close>

definition factory_fields :: "factory_kwargs \<Rightarrow> (string \<times> field) list" where
  "factory_fields kwargs =
     map (\<lambda>name. (name, new_field (case map_of (kw_field_classes kwargs) name of
                                      None \<Rightarrow> OtherField | Some c \<Rightarrow> c)))
       (kw_fields kwargs)
     @ [(''id'', new_field OtherField)]
     @ (if can_delete kwargs = Some True then [(''DELETE'', new_field BooleanField)] else [])"

text \<open>
  Modelled from the spec: the form at index \<open>i\<close>. In a formset shown for a GET it edits
  the row at that index of the editable rows, or is blank beyond them. What a bound form
  holds (the row it edits, the stored and the submitted values) is read from the payload
  by the framework: a parameter.
\<close>

definition construct_form ::
  "('row \<Rightarrow> (string \<times> string) list) \<Rightarrow> (nat \<Rightarrow> 'row form) \<Rightarrow> factory_kwargs \<Rightarrow>
     management_form option \<Rightarrow> 'row list \<Rightarrow> nat \<Rightarrow> 'row form" where
  "construct_form model_to_dict bound_form kwargs bound rows i =
     (case bound of
        Some management \<Rightarrow> (bound_form i)\<lparr>form_fields := factory_fields kwargs\<rparr>
      | None \<Rightarrow>
          if i < length rows
          then \<lparr>form_fields = factory_fields kwargs, form_instance = Some (rows ! i),
                initial = model_to_dict (rows ! i), data = []\<rparr>
          else \<lparr>form_fields = factory_fields kwargs, form_instance = None,
                initial = [], data = []\<rparr>)"

text \<open>Modelled from the spec: \<open>ModelFormSetView.get_formset\<close>, the formset of all forms.\<close>

definition ModelFormSetView_get_formset ::
  "('row \<Rightarrow> (string \<times> string) list) \<Rightarrow> (nat \<Rightarrow> 'row form) \<Rightarrow> factory_kwargs \<Rightarrow>
     management_form option \<Rightarrow> 'row list \<Rightarrow> 'row form list" where
  "ModelFormSetView_get_formset model_to_dict bound_form kwargs bound rows =
     map (construct_form model_to_dict bound_form kwargs bound rows)
       [0 ..< total_form_count kwargs bound rows]"

text \<open>Modelled from the spec: the forms of the formset beyond those of stored rows.\<close>

definition extra_forms :: "management_form option \<Rightarrow> 'row list \<Rightarrow> 'row form list \<Rightarrow> 'row form list"
  where
  "extra_forms bound rows formset = drop (initial_form_count bound rows) formset"

text \<open>
  \<open>self.get_formset()\<close> as a view runs it: the methods of this file applied to the formset
  that the parent builds from \<open>get_formset_factory_kwargs()\<close>, the binding of the request
  (none for a GET) and the editable rows.
\<close>

definition view_get_formset ::
  "view \<Rightarrow> externals \<Rightarrow> database \<Rightarrow> ('row \<Rightarrow> (string \<times> string) list) \<Rightarrow> (nat \<Rightarrow> 'row form) \<Rightarrow>
     request \<Rightarrow> tournament \<Rightarrow> management_form option \<Rightarrow> 'row list \<Rightarrow> error + 'row form list"
  where
  "view_get_formset self ext db model_to_dict bound_form req t bound rows =
     get_formset self ext db req t
       (ModelFormSetView_get_formset model_to_dict bound_form
          (get_formset_factory_kwargs ext self req t) bound rows)"


subsection \<open>Submitting a formset\<close>

text \<open>
  Modelled from the spec: the save cycle of the formset, which the parent class
  \<open>ModelFormSetView\<close> (utils/views.py) and the form layer under it carry out and this
  file only calls. The spec says that a valid submission persists the created, updated and
  deleted rows, that an invalid one re-renders the form, that row deletion exists only
  where it is enabled, and that the fields of a user without edit rights are disabled
  server-side. A disabled field keeps the stored value whatever is submitted for it.
\<close>

definition bound_value :: "'row form \<Rightarrow> string \<Rightarrow> field \<Rightarrow> string option" where
  "bound_value form name fld =
     (if disabled fld then map_of (initial form) name else map_of (data form) name)"

text \<open>
  Modelled from the spec: how the form layer reads one value. An absent value counts as
  the empty text. A checkbox is ticked by any submitted text but the empty one and
  \<open>false\<close>, in any case of the letters; a stored boolean given as text is true unless
  the text is empty, \<open>false\<close> or \<open>0\<close>.
\<close>

definition value_or_empty :: "string option \<Rightarrow> string" where
  "value_or_empty v = (case v of None \<Rightarrow> [] | Some s \<Rightarrow> s)"

definition lower :: "string \<Rightarrow> string" where
  "lower s =
     map (\<lambda>c. if 65 \<le> (of_char c :: nat) \<and> (of_char c :: nat) \<le> 90
              then char_of ((of_char c :: nat) + 32) else c) s"

definition CheckboxInput_value_from_datadict :: "string option \<Rightarrow> bool" where
  "CheckboxInput_value_from_datadict v =
     (case v of
        None \<Rightarrow> False
      | Some s \<Rightarrow>
          if lower s = ''true'' then True
          else if lower s = ''false'' then False
          else s \<noteq> [])"

definition BooleanField_to_python :: "string option \<Rightarrow> bool" where
  "BooleanField_to_python v =
     (case v of
        None \<Rightarrow> False
      | Some s \<Rightarrow> if lower s = ''false'' \<or> lower s = ''0'' then False else s \<noteq> [])"

text \<open>
  Modelled from the spec: a field has changed when it is enabled and its submitted value
  differs from the stored one; a form has changed when one of its fields has. A form asks
  for deletion when the value of its \<open>DELETE\<close> checkbox is true.
\<close>

definition field_has_changed :: "'row form \<Rightarrow> string \<Rightarrow> field \<Rightarrow> bool" where
  "field_has_changed form name fld =
     (if disabled fld then False
      else if field_class fld = BooleanField
      then BooleanField_to_python (map_of (initial form) name) \<noteq>
           CheckboxInput_value_from_datadict (map_of (data form) name)
      else value_or_empty (map_of (initial form) name) \<noteq>
           value_or_empty (bound_value form name fld))"

definition has_changed :: "'row form \<Rightarrow> bool" where
  "has_changed form =
     list_ex (\<lambda>(name, fld). field_has_changed form name fld) (form_fields form)"

definition should_delete_form :: "'row form \<Rightarrow> bool" where
  "should_delete_form form =
     (case map_of (form_fields form) ''DELETE'' of
        None \<Rightarrow> False
      | Some fld \<Rightarrow>
          if disabled fld then BooleanField_to_python (bound_value form ''DELETE'' fld)
          else CheckboxInput_value_from_datadict (bound_value form ''DELETE'' fld))"

text \<open>
  Modelled from the spec: how a saved form becomes a row is the model form's business and
  stays a parameter: the primary key of a row, the row an existing one becomes under a
  form, and the row a blank form inserts into a table.
\<close>

record 'row model_ops =
  row_pk :: "'row \<Rightarrow> nat"
  updated_row :: "'row form \<Rightarrow> 'row \<Rightarrow> 'row"
  new_row :: "'row form \<Rightarrow> 'row list \<Rightarrow> 'row"

text \<open>
  The table of the view's conflict model while the formset is saved, with what the save
  reports: \<open>instances\<close> (the rows written) and \<open>deleted_objects\<close>.
\<close>

record 'row saving =
  objects :: "'row list"
  instances :: "'row list"
  deleted_objects :: "'row list"

text \<open>
  Modelled from the spec: saving the forms of existing rows. A form marked for deletion,
  where deletion is enabled, deletes its row; otherwise a changed form updates its row.
\<close>

fun save_existing_objects ::
  "'row model_ops \<Rightarrow> bool \<Rightarrow> 'row form list \<Rightarrow> 'row saving \<Rightarrow> 'row saving" where
  "save_existing_objects ops deletable [] s = s"
| "save_existing_objects ops deletable (form # rest) s =
     (case form_instance form of
        None \<Rightarrow> save_existing_objects ops deletable rest s
      | Some obj \<Rightarrow>
          if deletable \<and> should_delete_form form then
            save_existing_objects ops deletable rest
              (s\<lparr>objects := filter (\<lambda>r. row_pk ops r \<noteq> row_pk ops obj) (objects s),
                 deleted_objects := deleted_objects s @ [obj]\<rparr>)
          else if has_changed form then
            save_existing_objects ops deletable rest
              (s\<lparr>objects := map (\<lambda>r. if row_pk ops r = row_pk ops obj
                                      then updated_row ops form obj else r) (objects s),
                 instances := instances s @ [updated_row ops form obj]\<rparr>)
          else save_existing_objects ops deletable rest s)"

text \<open>
  Modelled from the spec: saving the extra blank forms. An unchanged one is skipped, and so
  is one marked for deletion; any other inserts a row.
\<close>

fun save_new_objects ::
  "'row model_ops \<Rightarrow> bool \<Rightarrow> 'row form list \<Rightarrow> 'row saving \<Rightarrow> 'row saving" where
  "save_new_objects ops deletable [] s = s"
| "save_new_objects ops deletable (form # rest) s =
     (case form_instance form of
        Some _ \<Rightarrow> save_new_objects ops deletable rest s
      | None \<Rightarrow>
          if \<not> has_changed form then save_new_objects ops deletable rest s
          else if deletable \<and> should_delete_form form then
            save_new_objects ops deletable rest s
          else
            save_new_objects ops deletable rest
              (s\<lparr>objects := objects s @ [new_row ops form (objects s)],
                 instances := instances s @ [new_row ops form (objects s)]\<rparr>))"

text \<open>
  Modelled from the spec: \<open>formset.save()\<close> on a table. Deletion is enabled when the
  factory was given \<open>can_delete\<close> true.
\<close>

definition formset_save ::
  "'row model_ops \<Rightarrow> factory_kwargs \<Rightarrow> 'row form list \<Rightarrow> 'row list \<Rightarrow> 'row saving" where
  "formset_save ops kwargs formset table =
     (let deletable = (can_delete kwargs = Some True) in
      save_new_objects ops deletable formset
        (save_existing_objects ops deletable formset
           \<lparr>objects = table, instances = [], deleted_objects = []\<rparr>))"

text \<open>
  What a request can change: the rows of the view's conflict model and the messages queued
  for the user.
\<close>

record 'row state =
  conflict_rows :: "'row list"
  messages :: message_storage

datatype 'row response = HttpResponseRedirect string | TemplateResponse "'row form list"

definition get_success_url :: "externals \<Rightarrow> tournament \<Rightarrow> string" where
  "get_success_url ext t = reverse_tournament ext ''importer-simple-index'' t"

text \<open>
  Modelled from the spec: \<open>redirect_tournament\<close> (utils/misc.py) answers with a redirect to
  the URL of the named view for the tournament.
\<close>

definition redirect_tournament :: "externals \<Rightarrow> string \<Rightarrow> tournament \<Rightarrow> 'row response" where
  "redirect_tournament ext to t = HttpResponseRedirect (reverse_tournament ext to t)"

text \<open>
  Modelled from the spec: \<open>ModelFormSetView.formset_valid\<close> saves the formset, keeps the
  saved rows in \<open>self.instances\<close> and answers with a redirect to \<open>get_success_url()\<close>.
\<close>

definition ModelFormSetView_formset_valid ::
  "externals \<Rightarrow> 'row model_ops \<Rightarrow> factory_kwargs \<Rightarrow> tournament \<Rightarrow> 'row form list \<Rightarrow>
     'row state \<Rightarrow> 'row response \<times> 'row saving \<times> 'row state" where
  "ModelFormSetView_formset_valid ext ops kwargs t formset st =
     (let saved = formset_save ops kwargs formset (conflict_rows st)
      in (HttpResponseRedirect (get_success_url ext t), saved,
          st\<lparr>conflict_rows := objects saved\<rparr>))"

text \<open>\<open>BaseAdjudicatorConflictsView.formset_valid\<close>.\<close>

definition formset_valid ::
  "view \<Rightarrow> externals \<Rightarrow> 'row model_ops \<Rightarrow> request \<Rightarrow> tournament \<Rightarrow> 'row form list \<Rightarrow>
     'row state \<Rightarrow> 'row response \<times> 'row state" where
  "formset_valid self ext ops req t formset st =
     (case ModelFormSetView_formset_valid ext ops
             (get_formset_factory_kwargs ext self req t) t formset st of
        (result, saved, st) \<Rightarrow>
          (let nsaved = length (instances saved);
               ndeleted = length (deleted_objects saved);
               st = st\<lparr>messages := add_message self (messages st) nsaved ndeleted\<rparr>
           in if ''add_more'' \<in> fst ` set (POST req)
              then (redirect_tournament ext (same_view self) t, st)
              else (result, st)))"

text \<open>
  Modelled from the spec: \<open>ModelFormSetView.post\<close> builds the formset, validates it, and
  calls \<open>formset_valid\<close> on success; on failure it renders the form again and saves
  nothing. The outcome of validation is a parameter; \<open>built\<close> is the formset the framework
  binds to the POST payload before the views' \<open>get_formset\<close> methods adjust it.
\<close>

definition post ::
  "view \<Rightarrow> externals \<Rightarrow> database \<Rightarrow> 'row model_ops \<Rightarrow> ('row form list \<Rightarrow> bool) \<Rightarrow>
     request \<Rightarrow> tournament \<Rightarrow> 'row form list \<Rightarrow> 'row state \<Rightarrow>
     error + ('row response \<times> 'row state)" where
  "post self ext db ops is_valid req t built st =
     and_then (get_formset self ext db req t built) (\<lambda>formset.
       if is_valid formset then Inr (formset_valid self ext ops req t formset st)
       else Inr (TemplateResponse formset, st))"

text \<open>The stored rows that the forms of a formset edit, in the order of the forms.\<close>

fun instances_of :: "'row form list \<Rightarrow> 'row list" where
  "instances_of [] = []"
| "instances_of (form # rest) =
     (case form_instance form of
        None \<Rightarrow> instances_of rest
      | Some obj \<Rightarrow> obj # instances_of rest)"

subsection \<open>The messages as the specification words them\<close>

text \<open>
  A count message names the action, the count in decimal and the relation, with the noun in
  the singular for a count of one.
\<close>

fun relation_name :: "view \<Rightarrow> string" where
  "relation_name AdjudicatorTeamConflictsView = ''adjudicator-team''"
| "relation_name AdjudicatorAdjudicatorConflictsView = ''adjudicator-adjudicator''"
| "relation_name AdjudicatorInstitutionConflictsView = ''adjudicator-institution''"
| "relation_name TeamInstitutionConflictsView = ''team-institution''"

definition count_message :: "string \<Rightarrow> view \<Rightarrow> nat \<Rightarrow> string" where
  "count_message verb v n =
     verb @ '' '' @ decimal n @ '' '' @ relation_name v @
       (if n = 1 then '' conflict.'' else '' conflicts.'')"

definition no_changes_message :: "view \<Rightarrow> string" where
  "no_changes_message v = ''No changes were made to '' @ relation_name v @ '' conflicts.''"

subsection \<open>Example inputs\<close>

text \<open>
  User 2 may edit every conflict type and user 3 none; tournament 7 displays code names.
\<close>

definition example_externals :: externals where
  "example_externals =
     \<lparr>has_permission = (\<lambda>u p t. u = 2),
      use_team_code_names = (\<lambda>t admin u. t = 7),
      reverse_tournament = (\<lambda>name t. ''/'' @ decimal t @ ''/'' @ name @ ''/'')\<rparr>"

definition example_field :: "field_class \<Rightarrow> field" where
  "example_field c =
     \<lparr>field_class = c, disabled = False, empty_label = Some ''---------'',
      queryset = [], use_code_names = None\<rparr>"

definition adj_zoe :: Adjudicator where
  "adj_zoe = \<lparr>adjudicator_id = 1, adjudicator_name = ''Zoe'', adjudicator_tournament = 7\<rparr>"

definition adj_amy :: Adjudicator where
  "adj_amy = \<lparr>adjudicator_id = 2, adjudicator_name = ''Amy'', adjudicator_tournament = 7\<rparr>"

definition adj_bob :: Adjudicator where
  "adj_bob = \<lparr>adjudicator_id = 3, adjudicator_name = ''Bob'', adjudicator_tournament = 8\<rparr>"

definition team_alpha :: Team where
  "team_alpha =
     \<lparr>team_id = 1, short_name = ''Alpha'', code_name = ''Zebra'', team_tournament = 7\<rparr>"

definition team_beta :: Team where
  "team_beta =
     \<lparr>team_id = 2, short_name = ''Beta'', code_name = ''Apple'', team_tournament = 7\<rparr>"

definition team_gamma :: Team where
  "team_gamma =
     \<lparr>team_id = 3, short_name = ''Gamma'', code_name = ''Mango'', team_tournament = 8\<rparr>"

definition inst_one :: Institution where
  "inst_one = \<lparr>institution_id = 1, institution_name = ''Uni One''\<rparr>"

definition inst_two :: Institution where
  "inst_two = \<lparr>institution_id = 2, institution_name = ''Uni Two''\<rparr>"

definition example_database :: database where
  "example_database =
     \<lparr>Adjudicator_objects = [adj_zoe, adj_amy, adj_bob],
      Team_objects = [team_alpha, team_beta, team_gamma],
      Institution_objects = [inst_one, inst_two],
      AdjudicatorTeamConflict_objects =
        [\<lparr>atc_id = 1, atc_adjudicator = adj_zoe, atc_team = team_alpha\<rparr>,
         \<lparr>atc_id = 2, atc_adjudicator = adj_bob, atc_team = team_gamma\<rparr>,
         \<lparr>atc_id = 3, atc_adjudicator = adj_amy, atc_team = team_beta\<rparr>],
      AdjudicatorAdjudicatorConflict_objects =
        [\<lparr>aac_id = 1, adjudicator1 = adj_zoe, adjudicator2 = adj_amy\<rparr>,
         \<lparr>aac_id = 2, adjudicator1 = adj_bob, adjudicator2 = adj_zoe\<rparr>,
         \<lparr>aac_id = 3, adjudicator1 = adj_amy, adjudicator2 = adj_bob\<rparr>],
      AdjudicatorInstitutionConflict_objects =
        [\<lparr>aic_id = 1, aic_adjudicator = adj_zoe, aic_institution = inst_one\<rparr>,
         \<lparr>aic_id = 2, aic_adjudicator = adj_amy, aic_institution = inst_two\<rparr>],
      TeamInstitutionConflict_objects =
        [\<lparr>tic_id = 1, tic_team = team_beta, tic_institution = inst_one\<rparr>,
         \<lparr>tic_id = 2, tic_team = team_gamma, tic_institution = inst_one\<rparr>,
         \<lparr>tic_id = 3, tic_team = team_alpha, tic_institution = inst_two\<rparr>]\<rparr>"

text \<open>A form of the team-institution formset, as the framework builds it.\<close>

definition example_team_institution_form :: "nat form" where
  "example_team_institution_form =
     \<lparr>form_fields = [(''team'', example_field TeamChoiceField),
                     (''institution'', example_field DedupModelChoiceField),
                     (''id'', example_field OtherField)],
      form_instance = Some 1,
      initial = [(''team'', ''2''), (''institution'', ''1''), (''id'', ''1'')],
      data = []\<rparr>"

text \<open>A form of the adjudicator-team formset whose payload changes the team of row 5.\<close>

definition example_form :: "nat form" where
  "example_form =
     \<lparr>form_fields = [(''adjudicator'', example_field DedupModelChoiceField),
                     (''team'', example_field TeamChoiceField),
                     (''id'', example_field OtherField)],
      form_instance = Some 5,
      initial = [(''adjudicator'', ''1''), (''team'', ''1''), (''id'', ''5'')],
      data = [(''adjudicator'', ''1''), (''team'', ''2''), (''id'', ''5'')]\<rparr>"

definition example_ops :: "nat model_ops" where
  "example_ops = \<lparr>row_pk = (\<lambda>r. r), updated_row = (\<lambda>form r. r + 100),
                   new_row = (\<lambda>form table. Suc (length table))\<rparr>"

definition example_request :: "user \<Rightarrow> (string \<times> string) list \<Rightarrow> request" where
  "example_request u payload = \<lparr>user = u, POST = payload\<rparr>"


text \<open>An institution choice field, and a \<open>str\<close> that gives each row its name.\<close>

definition example_institution_field :: field where
  "example_institution_field =
     \<lparr>field_class = DedupModelChoiceField, disabled = False, empty_label = Some ''---------'',
      queryset = [InstitutionObj inst_one, InstitutionObj inst_two], use_code_names = None\<rparr>"

fun example_str :: "model_instance \<Rightarrow> string" where
  "example_str (AdjudicatorObj a) = adjudicator_name a"
| "example_str (TeamObj t) = short_name t"
| "example_str (InstitutionObj i) = institution_name i"



text \<open>
  Rows of the adjudicator-team table as pairs of a primary key and the team chosen. An
  update keeps the key; an insert takes a key above every key of the table and above 6,
  the last key handed out.
\<close>

definition example_row_ops :: "(nat \<times> string) model_ops" where
  "example_row_ops =
     \<lparr>row_pk = fst,
      updated_row = (\<lambda>form r. (fst r, value_or_empty (map_of (data form) ''team''))),
      new_row = (\<lambda>form table. (Suc (fold max (map fst table) 6),
                                 value_or_empty (map_of (data form) ''team'')))\<rparr>"

definition example_row_fields :: "(string \<times> field) list" where
  "example_row_fields =
     [(''adjudicator'', example_field DedupModelChoiceField),
      (''team'', example_field TeamChoiceField),
      (''id'', example_field OtherField),
      (''DELETE'', example_field BooleanField)]"

text \<open>
  Four submitted forms: row 5 with another team chosen, row 6 ticked for deletion, a blank
  form left empty, and a blank form filled in.
\<close>

definition example_row_forms :: "(nat \<times> string) form list" where
  "example_row_forms =
     [\<lparr>form_fields = example_row_fields, form_instance = Some (5, ''1''),
       initial = [(''adjudicator'', ''1''), (''team'', ''1''), (''id'', ''5'')],
       data = [(''adjudicator'', ''1''), (''team'', ''2''), (''id'', ''5'')]\<rparr>,
      \<lparr>form_fields = example_row_fields, form_instance = Some (6, ''1''),
       initial = [(''adjudicator'', ''2''), (''team'', ''1''), (''id'', ''6'')],
       data = [(''adjudicator'', ''2''), (''team'', ''1''), (''id'', ''6''),
               (''DELETE'', ''1'')]\<rparr>,
      \<lparr>form_fields = example_row_fields, form_instance = None, initial = [],
       data = [(''adjudicator'', ''''), (''team'', ''''), (''id'', '''')]\<rparr>,
      \<lparr>form_fields = example_row_fields, form_instance = None, initial = [],
       data = [(''adjudicator'', ''2''), (''team'', ''2''), (''id'', '''')]\<rparr>]"

text \<open>The stored values of a row of the example table, as the form layer reads them.\<close>

definition example_model_to_dict :: "nat \<Rightarrow> (string \<times> string) list" where
  "example_model_to_dict r = [(''adjudicator'', ''1''), (''team'', ''1''), (''id'', decimal r)]"

section \<open>Properties\<close>

subsection \<open>Auxiliary facts about forms and formsets\<close>

lemma and_then_Inr: "and_then r f = Inr y \<longleftrightarrow> (\<exists>x. r = Inr x \<and> f x = Inr y)"
  by (cases r) (simp_all add: and_then_def)

lemma for_each_Inr:
  "for_each body xs = Inr ys \<Longrightarrow> list_all2 (\<lambda>x y. body x = Inr y) xs ys"
proof (induction xs arbitrary: ys)
  case Nil
  then show ?case by simp
next
  case (Cons x xs)
  then show ?case by (auto simp: and_then_Inr)
qed

lemma for_each_total:
  "\<forall>x\<in>set xs. \<exists>y. body x = Inr y \<Longrightarrow> \<exists>ys. for_each body xs = Inr ys"
  by (induction xs) (auto simp: and_then_def)

lemma setattr_field_Inr:
  "setattr_field key assign form = Inr form' \<longleftrightarrow>
     (key \<in> fst ` set (form_fields form) \<and> form' = assign_field key assign form)"
  by (auto simp: setattr_field_def map_of_eq_None_iff split: option.splits
        dest: map_of_SomeD intro: rev_image_eqI)

lemma keys_assign_field [simp]:
  "map fst (form_fields (assign_field key assign form)) = map fst (form_fields form)"
  by (simp add: assign_field_def case_prod_beta comp_def)

lemma map_of_assign_field:
  "map_of (form_fields (assign_field key assign form)) k =
     (if k = key then map_option assign (map_of (form_fields form) k)
      else map_of (form_fields form) k)"
proof -
  have "map_of (map (\<lambda>(name, fld). if name = key then (name, assign fld) else (name, fld)) xs) k =
     (if k = key then map_option assign (map_of xs k) else map_of xs k)" for xs
    by (induction xs) auto
  then show ?thesis by (simp add: assign_field_def)
qed

lemma set_assign_field:
  "set (form_fields (assign_field key assign form)) =
     (\<lambda>(name, fld). (name, if name = key then assign fld else fld)) ` set (form_fields form)"
  by (auto simp: assign_field_def split: if_splits intro: rev_image_eqI)

lemma rest_assign_field [simp]:
  "form_instance (assign_field key assign form) = form_instance form"
  "initial (assign_field key assign form) = initial form"
  "data (assign_field key assign form) = data form"
  by (simp_all add: assign_field_def)


lemma for_each_Inr_map:
  assumes "for_each body xs = Inr ys" and "\<And>x y. body x = Inr y \<Longrightarrow> y = G x"
  shows "ys = map G xs"
  using for_each_Inr [OF assms(1)] assms(2)
  by (induction xs ys rule: list_all2_induct) auto

lemma AdjudicatorTeam_get_formset_Inr:
  assumes "AdjudicatorTeamConflictsView_get_formset ext db req t formset = Inr fs"
  shows "fs = map (\<lambda>form.
           assign_field ''team''
             (\<lambda>fld. fld\<lparr>use_code_names := Some (use_team_code_names ext t True (user req))\<rparr>)
             (assign_field ''team''
                (set_queryset (map TeamObj
                   (order_by (if use_team_code_names ext t True (user req)
                              then code_name else short_name) (team_set db t))))
                (assign_field ''adjudicator''
                   (set_queryset (map AdjudicatorObj
                      (order_by adjudicator_name (adjudicator_set db t)))) form)))
         (BaseAdjudicatorConflictsView_get_formset ext AdjudicatorTeamConflictsView req t formset)"
  using assms unfolding AdjudicatorTeamConflictsView_get_formset_def Let_def
  by (rule for_each_Inr_map) (auto simp: and_then_Inr setattr_field_Inr)

lemma AdjudicatorAdjudicator_get_formset_Inr:
  assumes "AdjudicatorAdjudicatorConflictsView_get_formset ext db req t formset = Inr fs"
  shows "fs = map (\<lambda>form.
           assign_field ''adjudicator2''
             (set_queryset (map AdjudicatorObj
                (order_by adjudicator_name (adjudicator_set db t))))
             (assign_field ''adjudicator1''
                (set_queryset (map AdjudicatorObj
                   (order_by adjudicator_name (adjudicator_set db t)))) form))
         (BaseAdjudicatorConflictsView_get_formset ext AdjudicatorAdjudicatorConflictsView
            req t formset)"
  using assms unfolding AdjudicatorAdjudicatorConflictsView_get_formset_def Let_def
  by (rule for_each_Inr_map) (auto simp: and_then_Inr setattr_field_Inr)

lemma AdjudicatorInstitution_get_formset_Inr:
  assumes "AdjudicatorInstitutionConflictsView_get_formset ext db req t formset = Inr fs"
  shows "fs = map (\<lambda>form.
           assign_field ''institution''
             (set_queryset (map InstitutionObj (Institution_objects db)))
             (assign_field ''adjudicator''
                (set_queryset (map AdjudicatorObj
                   (order_by adjudicator_name (adjudicator_set db t)))) form))
         (BaseAdjudicatorConflictsView_get_formset ext AdjudicatorInstitutionConflictsView
            req t formset)"
  using assms unfolding AdjudicatorInstitutionConflictsView_get_formset_def Let_def
  by (rule for_each_Inr_map) (auto simp: and_then_Inr setattr_field_Inr)

lemma TeamInstitution_get_formset_Inr:
  assumes "TeamInstitutionConflictsView_get_formset ext db req t formset = Inr fs"
  shows "fs = map (\<lambda>form.
           assign_field ''institution''
             (set_queryset (map InstitutionObj (Institution_objects db)))
             (assign_field ''team''
                (\<lambda>fld. fld\<lparr>use_code_names := Some (use_team_code_names ext t True (user req))\<rparr>)
                (assign_field ''team''
                   (set_queryset (map TeamObj (order_by short_name (team_set db t)))) form)))
         (BaseAdjudicatorConflictsView_get_formset ext TeamInstitutionConflictsView req t formset)"
  using assms unfolding TeamInstitutionConflictsView_get_formset_def Let_def
  by (rule for_each_Inr_map) (auto simp: and_then_Inr setattr_field_Inr)

lemma disabled_assign_field:
  assumes "\<And>fld. disabled (assign fld) = disabled fld"
  shows "(\<forall>(name, fld) \<in> set (form_fields (assign_field key assign form)). disabled fld) \<longleftrightarrow>
         (\<forall>(name, fld) \<in> set (form_fields form). disabled fld)"
proof -
  have "disabled (snd ((\<lambda>(name, fld). (name, if name = key then assign fld else fld)) p))
          = disabled (snd p)" for p
    using assms by (cases p) simp
  then show ?thesis
    by (simp add: set_assign_field case_prod_unfold)
qed

lemma disabled_set_queryset [simp]: "disabled (set_queryset qs fld) = disabled fld"
  by (simp add: set_queryset_def)

lemma Base_get_formset_disabled:
  assumes "\<not> has_permission ext (user req) (edit_permission v) t"
    and "form \<in> set (BaseAdjudicatorConflictsView_get_formset ext v req t formset)"
  shows "\<forall>(name, fld) \<in> set (form_fields form). disabled fld"
  using assms by (auto simp: BaseAdjudicatorConflictsView_get_formset_def get_edit_permission_def)

lemma get_formset_disabled:
  assumes "\<not> has_permission ext (user req) (edit_permission v) t"
    and "get_formset v ext db req t formset = Inr fs" and "form \<in> set fs"
  shows "\<forall>(name, fld) \<in> set (form_fields form). disabled fld"
proof (cases v)
  case AdjudicatorTeamConflictsView
  with assms(2,3) obtain b where
    "b \<in> set (BaseAdjudicatorConflictsView_get_formset ext v req t formset)"
    and "form = assign_field ''team''
             (\<lambda>fld. fld\<lparr>use_code_names := Some (use_team_code_names ext t True (user req))\<rparr>)
             (assign_field ''team''
                (set_queryset (map TeamObj
                   (order_by (if use_team_code_names ext t True (user req)
                              then code_name else short_name) (team_set db t))))
                (assign_field ''adjudicator''
                   (set_queryset (map AdjudicatorObj
                      (order_by adjudicator_name (adjudicator_set db t)))) b))"
    by (auto dest!: AdjudicatorTeam_get_formset_Inr)
  with Base_get_formset_disabled [OF assms(1)] show ?thesis
    by (simp add: disabled_assign_field)
next
  case AdjudicatorAdjudicatorConflictsView
  with assms(2,3) obtain b where
    "b \<in> set (BaseAdjudicatorConflictsView_get_formset ext v req t formset)"
    and "form = assign_field ''adjudicator2''
             (set_queryset (map AdjudicatorObj
                (order_by adjudicator_name (adjudicator_set db t))))
             (assign_field ''adjudicator1''
                (set_queryset (map AdjudicatorObj
                   (order_by adjudicator_name (adjudicator_set db t)))) b)"
    by (auto dest!: AdjudicatorAdjudicator_get_formset_Inr)
  with Base_get_formset_disabled [OF assms(1)] show ?thesis
    by (simp add: disabled_assign_field)
next
  case AdjudicatorInstitutionConflictsView
  with assms(2,3) obtain b where
    "b \<in> set (BaseAdjudicatorConflictsView_get_formset ext v req t formset)"
    and "form = assign_field ''institution''
             (set_queryset (map InstitutionObj (Institution_objects db)))
             (assign_field ''adjudicator''
                (set_queryset (map AdjudicatorObj
                   (order_by adjudicator_name (adjudicator_set db t)))) b)"
    by (auto dest!: AdjudicatorInstitution_get_formset_Inr)
  with Base_get_formset_disabled [OF assms(1)] show ?thesis
    by (simp add: disabled_assign_field)
next
  case TeamInstitutionConflictsView
  with assms(2,3) obtain b where
    "b \<in> set (BaseAdjudicatorConflictsView_get_formset ext v req t formset)"
    and "form = assign_field ''institution''
             (set_queryset (map InstitutionObj (Institution_objects db)))
             (assign_field ''team''
                (\<lambda>fld. fld\<lparr>use_code_names := Some (use_team_code_names ext t True (user req))\<rparr>)
                (assign_field ''team''
                   (set_queryset (map TeamObj (order_by short_name (team_set db t)))) b))"
    by (auto dest!: TeamInstitution_get_formset_Inr)
  with Base_get_formset_disabled [OF assms(1)] show ?thesis
    by (simp add: disabled_assign_field)
qed

subsection \<open>Submission without edit permission\<close>

lemma not_has_changed_disabled:
  "\<forall>(name, fld) \<in> set (form_fields form). disabled fld \<Longrightarrow> \<not> has_changed form"
  by (auto simp: has_changed_def list_ex_iff field_has_changed_def)

lemma save_existing_objects_unchanged:
  "\<forall>form \<in> set forms. \<not> has_changed form \<Longrightarrow>
     save_existing_objects ops False forms s = s"
  by (induction forms) (auto split: option.splits)

lemma save_new_objects_unchanged:
  "\<forall>form \<in> set forms. \<not> has_changed form \<Longrightarrow>
     save_new_objects ops deletable forms s = s"
  by (induction forms) (auto split: option.splits)

lemma kwargs_no_permission:
  "\<not> has_permission ext (user req) (edit_permission v) t \<Longrightarrow>
     extra (get_formset_factory_kwargs ext v req t) = Some 0 \<and>
     can_delete (get_formset_factory_kwargs ext v req t) = Some False"
  by (simp add: get_formset_factory_kwargs_def get_edit_permission_def Let_def)

lemma kwargs_permission:
  "has_permission ext (user req) (edit_permission v) t \<Longrightarrow>
     extra (get_formset_factory_kwargs ext v req t) = Some 10 \<and>
     can_delete (get_formset_factory_kwargs ext v req t) = Some True"
  by (simp add: get_formset_factory_kwargs_def get_edit_permission_def Let_def)

lemma formset_save_no_permission:
  assumes "\<not> has_permission ext (user req) (edit_permission v) t"
    and "get_formset v ext db req t built = Inr formset"
  shows "formset_save ops (get_formset_factory_kwargs ext v req t) formset table =
           \<lparr>objects = table, instances = [], deleted_objects = []\<rparr>"
proof -
  have "\<forall>form \<in> set formset. \<not> has_changed form"
    using get_formset_disabled [OF assms] not_has_changed_disabled by blast
  then show ?thesis
    using kwargs_no_permission [OF assms(1)]
    by (simp add: formset_save_def save_existing_objects_unchanged save_new_objects_unchanged)
qed

text \<open>
  C1. For each of the four conflict views and every POST payload: when the requesting user
  lacks the view's edit permission, handling the submission leaves the rows of the view's
  conflict model as they were, whether the views' \<open>get_formset\<close> raises, validation
  fails, or the formset is saved. Nothing is created, modified or deleted.
\<close>

theorem no_edit_permission_rows_unchanged:
  assumes "\<not> has_permission ext (user req) (edit_permission v) t"
  shows "conflict_rows (case post v ext db ops is_valid req t built st of
                          Inl e \<Rightarrow> st | Inr (response, st') \<Rightarrow> st') = conflict_rows st"
proof (cases "get_formset v ext db req t built")
  case (Inl e)
  then show ?thesis by (simp add: post_def and_then_def)
next
  case (Inr formset)
  then show ?thesis
    using formset_save_no_permission [OF assms Inr]
    by (simp add: post_def and_then_def formset_valid_def ModelFormSetView_formset_valid_def
        Let_def)
qed


theorem no_edit_permission_rows_unchanged_witness:
  "\<not> has_permission example_externals (user (example_request 3 [(''add_more'', ''1'')]))
        (edit_permission AdjudicatorTeamConflictsView) 7 \<and>
   (\<exists>response st'.
      post AdjudicatorTeamConflictsView example_externals example_database example_ops
        (\<lambda>fs. True) (example_request 3 [(''add_more'', ''1'')]) 7 [example_form]
        \<lparr>conflict_rows = [5, 6], messages = []\<rparr> = Inr (response, st') \<and>
      conflict_rows st' = [5, 6])"
proof -
  have p: "\<not> has_permission example_externals (user (example_request 3 [(''add_more'', ''1'')]))
        (edit_permission AdjudicatorTeamConflictsView) 7"
    by (simp add: example_externals_def example_request_def)
  have "\<exists>response st'.
      post AdjudicatorTeamConflictsView example_externals example_database example_ops
        (\<lambda>fs. True) (example_request 3 [(''add_more'', ''1'')]) 7 [example_form]
        \<lparr>conflict_rows = [5, 6], messages = []\<rparr> = Inr (response, st')"
    by (simp add: post_def and_then_def AdjudicatorTeamConflictsView_get_formset_def
        BaseAdjudicatorConflictsView_get_formset_def setattr_field_def example_form_def Let_def
        assign_field_def)
  then obtain response st' where e:
    "post AdjudicatorTeamConflictsView example_externals example_database example_ops
        (\<lambda>fs. True) (example_request 3 [(''add_more'', ''1'')]) 7 [example_form]
        \<lparr>conflict_rows = [5, 6], messages = []\<rparr> = Inr (response, st')"
    by blast
  from no_edit_permission_rows_unchanged [OF p, where db = example_database
      and ops = example_ops and is_valid = "\<lambda>fs. True" and built = "[example_form]"
      and st = "\<lparr>conflict_rows = [5, 6], messages = []\<rparr>"] e
  have "conflict_rows st' = [5, 6]" by simp
  with p e show ?thesis by blast
qed

subsection \<open>Messages after a valid submission\<close>

lemma add_message_eq:
  "add_message v request nsaved ndeleted =
     request
     @ (if nsaved > 0 then [(SUCCESS, count_message ''Saved'' v nsaved)] else [])
     @ (if ndeleted > 0 then [(SUCCESS, count_message ''Deleted'' v ndeleted)] else [])
     @ (if nsaved = 0 \<and> ndeleted = 0 then [(SUCCESS, no_changes_message v)] else [])"
  by (cases v)
     (simp_all add: AdjudicatorTeamConflictsView_add_message_def
        AdjudicatorAdjudicatorConflictsView_add_message_def
        AdjudicatorInstitutionConflictsView_add_message_def
        TeamInstitutionConflictsView_add_message_def
        messages_success_def ngettext_def gettext_def count_message_def
        no_changes_message_def Let_def)

lemma messages_differ:
  "count_message ''Saved'' v n \<noteq> count_message ''Deleted'' v m"
  "count_message ''Saved'' v n \<noteq> no_changes_message v"
  "count_message ''Deleted'' v n \<noteq> no_changes_message v"
  "count_message ''Deleted'' v m \<noteq> count_message ''Saved'' v n"
  "no_changes_message v \<noteq> count_message ''Saved'' v n"
  "no_changes_message v \<noteq> count_message ''Deleted'' v n"
  by (simp_all add: count_message_def no_changes_message_def)

lemma formset_valid_messages_eq:
  "messages (snd (formset_valid v ext ops req t formset st)) =
     add_message v (messages st)
       (length (instances (formset_save ops (get_formset_factory_kwargs ext v req t)
                             formset (conflict_rows st))))
       (length (deleted_objects (formset_save ops (get_formset_factory_kwargs ext v req t)
                             formset (conflict_rows st))))"
  by (simp add: formset_valid_def ModelFormSetView_formset_valid_def Let_def)

lemma save_existing_objects_append:
  "save_existing_objects ops d (xs @ ys) s =
     save_existing_objects ops d ys (save_existing_objects ops d xs s)"
  by (induction xs arbitrary: s) (auto split: option.splits)

lemma instances_of_append:
  "instances_of (xs @ ys) = instances_of xs @ instances_of ys"
  by (induction xs) (auto split: option.splits)

lemma set_instances_of:
  "set (instances_of forms) = {obj. \<exists>form \<in> set forms. form_instance form = Some obj}"
  by (induction forms) (auto split: option.splits)

lemma unique_row:
  assumes "distinct (map key T)" and "obj \<in> set T" and "r \<in> set T" and "key r = key obj"
  shows "r = obj"
  using assms by (meson distinct_map inj_onD)

lemma set_filter_pk:
  assumes "distinct (map key T)" and "obj \<in> set T"
  shows "set (filter (\<lambda>r. key r \<noteq> key obj) T) = set T - {obj}"
  using unique_row [OF assms] by auto

lemma set_replace_pk:
  assumes "distinct (map key T)" and "obj \<in> set T"
  shows "set (map (\<lambda>r. if key r = key obj then u else r) T) = insert u (set T - {obj})"
  using unique_row [OF assms] assms(2) by (auto simp: image_iff)

lemma map_pk_replace:
  assumes "key u = key obj"
  shows "map key (map (\<lambda>r. if key r = key obj then u else r) T) = map key T"
  using assms by (induction T) auto


text \<open>What saving the forms of stored rows does to the table, one form after the other.\<close>

lemma save_existing_objects_counts:
  fixes ops :: "'row model_ops" and s :: "'row saving"
  defines "key \<equiv> row_pk ops"
  assumes T: "distinct (map key (objects s))"
    and keep: "\<forall>form obj. key (updated_row ops form obj) = key obj"
  shows "(\<forall>form \<in> set forms. \<forall>obj. form_instance form = Some obj \<longrightarrow> obj \<in> set (objects s)) \<Longrightarrow>
         distinct (map key (instances_of forms)) \<Longrightarrow>
         (\<forall>form \<in> set forms. \<forall>obj. form_instance form = Some obj \<longrightarrow> has_changed form \<longrightarrow>
             \<not> (d \<and> should_delete_form form) \<longrightarrow> updated_row ops form obj \<noteq> obj) \<Longrightarrow>
         distinct (map key (objects (save_existing_objects ops d forms s))) \<and>
         (\<forall>r \<in> set (objects s). key r \<notin> key ` set (instances_of forms) \<longrightarrow>
             r \<in> set (objects (save_existing_objects ops d forms s))) \<and>
         key ` set (objects (save_existing_objects ops d forms s)) \<subseteq> key ` set (objects s) \<and>
         length (instances (save_existing_objects ops d forms s)) =
           length (instances s) +
           card {r \<in> set (objects (save_existing_objects ops d forms s)). r \<notin> set (objects s)} \<and>
         length (deleted_objects (save_existing_objects ops d forms s)) =
           length (deleted_objects s) +
           card {k \<in> key ` set (objects s).
                 k \<notin> key ` set (objects (save_existing_objects ops d forms s))}"
proof (induction forms rule: rev_induct)
  case Nil
  then show ?case using T by simp
next
  case (snoc x forms)
  let ?m = "save_existing_objects ops d forms s"
  let ?s' = "save_existing_objects ops d (forms @ [x]) s"
  let ?T = "objects s" and ?M = "objects ?m"
  have IH: "distinct (map key ?M)"
    "\<forall>r \<in> set ?T. key r \<notin> key ` set (instances_of forms) \<longrightarrow> r \<in> set ?M"
    "key ` set ?M \<subseteq> key ` set ?T"
    "length (instances ?m) = length (instances s) + card {r \<in> set ?M. r \<notin> set ?T}"
    "length (deleted_objects ?m) =
       length (deleted_objects s) + card {k \<in> key ` set ?T. k \<notin> key ` set ?M}"
    using snoc by (simp_all add: instances_of_append)
  have step: "?s' = save_existing_objects ops d [x] ?m"
    by (rule save_existing_objects_append)
  show ?case
  proof (cases "form_instance x")
    case None
    then have "?s' = ?m" by (simp add: save_existing_objects_append)
    with IH None show ?thesis by (simp add: instances_of_append)
  next
    case (Some obj)
    have objT: "obj \<in> set ?T" using snoc.prems(1) Some by simp
    have fresh: "key obj \<notin> key ` set (instances_of forms)"
      using snoc.prems(2) Some by (auto simp: instances_of_append)
    have objM: "obj \<in> set ?M" using IH(2) objT fresh by blast
    have inst: "key ` set (instances_of (forms @ [x])) = insert (key obj) (key ` set (instances_of forms))"
      using Some by (simp add: instances_of_append)
    have fin: "finite {r \<in> set ?M. r \<notin> set ?T}" "finite {k \<in> key ` set ?T. k \<notin> key ` set ?M}"
      by simp_all
    consider (del) "d \<and> should_delete_form x"
      | (upd) "\<not> (d \<and> should_delete_form x)" "has_changed x"
      | (same) "\<not> (d \<and> should_delete_form x)" "\<not> has_changed x"
      by blast
    then show ?thesis
    proof cases
      case del
      let ?T' = "filter (\<lambda>r. key r \<noteq> key obj) ?M"
      have s': "objects ?s' = ?T'" "instances ?s' = instances ?m"
        "deleted_objects ?s' = deleted_objects ?m @ [obj]"
        using del Some by (simp_all add: save_existing_objects_append key_def)
      have setT': "set ?T' = set ?M - {obj}"
        by (rule set_filter_pk [OF IH(1) objM])
      have pks: "key ` set ?T' = key ` set ?M - {key obj}"
        using setT' unique_row [OF IH(1) objM] by auto
      have N: "{r \<in> set ?T'. r \<notin> set ?T} = {r \<in> set ?M. r \<notin> set ?T}"
        using setT' objT by auto
      have K: "{k \<in> key ` set ?T. k \<notin> key ` set ?T'} =
                 insert (key obj) {k \<in> key ` set ?T. k \<notin> key ` set ?M}"
        using pks objT by auto
      have notin: "key obj \<notin> {k \<in> key ` set ?T. k \<notin> key ` set ?M}"
        using objM by auto
      have "distinct (map key ?T')" using IH(1) by (rule distinct_map_filter)
      moreover have "\<forall>r \<in> set ?T. key r \<notin> key ` set (instances_of (forms @ [x])) \<longrightarrow> r \<in> set ?T'"
        using IH(2) inst setT' by auto
      moreover have "key ` set ?T' \<subseteq> key ` set ?T" using IH(3) pks by auto
      moreover have "length (instances ?s') =
          length (instances s) + card {r \<in> set ?T'. r \<notin> set ?T}"
        using IH(4) s' N by simp
      moreover have "length (deleted_objects ?s') =
          length (deleted_objects s) + card {k \<in> key ` set ?T. k \<notin> key ` set ?T'}"
        using IH(5) s' K notin fin by simp
      ultimately show ?thesis unfolding s' by blast
    next
      case upd
      let ?u = "updated_row ops x obj"
      let ?T' = "map (\<lambda>r. if key r = key obj then ?u else r) ?M"
      have pku: "key ?u = key obj" using keep by simp
      have neq: "?u \<noteq> obj" using snoc.prems(3) Some upd by simp
      have s': "objects ?s' = ?T'" "instances ?s' = instances ?m @ [?u]"
        "deleted_objects ?s' = deleted_objects ?m"
        using upd Some by (auto simp: save_existing_objects_append key_def)
      have setT': "set ?T' = insert ?u (set ?M - {obj})"
        by (rule set_replace_pk [OF IH(1) objM])
      have mp: "map key ?T' = map key ?M" using pku by (rule map_pk_replace)
      then have pks: "key ` set ?T' = key ` set ?M" by (metis set_map)
      have uT: "?u \<notin> set ?T"
        using unique_row [of key "objects s" obj ?u] T objT pku neq by blast
      have uM: "?u \<notin> set ?M"
        using unique_row [of key ?M obj ?u] IH(1) objM pku neq by blast
      have N: "{r \<in> set ?T'. r \<notin> set ?T} = insert ?u {r \<in> set ?M. r \<notin> set ?T}"
        using setT' objT uT by auto
      have notin: "?u \<notin> {r \<in> set ?M. r \<notin> set ?T}" using uM by simp
      have "distinct (map key ?T')" unfolding mp by (rule IH(1))
      moreover have "\<forall>r \<in> set ?T. key r \<notin> key ` set (instances_of (forms @ [x])) \<longrightarrow> r \<in> set ?T'"
        using IH(2) inst setT' by auto
      moreover have "key ` set ?T' \<subseteq> key ` set ?T" using IH(3) pks by simp
      moreover have "length (instances ?s') =
          length (instances s) + card {r \<in> set ?T'. r \<notin> set ?T}"
        using IH(4) s' N notin fin by simp
      moreover have "length (deleted_objects ?s') =
          length (deleted_objects s) + card {k \<in> key ` set ?T. k \<notin> key ` set ?T'}"
        using IH(5) s' pks by simp
      ultimately show ?thesis unfolding s' by blast
    next
      case same
      then have "?s' = ?m" using Some by (auto simp: save_existing_objects_append)
      moreover have "\<forall>r \<in> set ?T. key r \<notin> key ` set (instances_of (forms @ [x])) \<longrightarrow> r \<in> set ?M"
        using IH(2) inst by auto
      ultimately show ?thesis using IH by simp
    qed
  qed
qed

lemma save_new_objects_counts:
  fixes ops :: "'row model_ops"
  defines "key \<equiv> row_pk ops"
  assumes fresh: "\<forall>form tbl. key (new_row ops form tbl) \<notin> key ` set tbl \<union> key ` set T0"
  shows "\<exists>news. objects (save_new_objects ops d forms s) = objects s @ news \<and>
           instances (save_new_objects ops d forms s) = instances s @ news \<and>
           deleted_objects (save_new_objects ops d forms s) = deleted_objects s \<and>
           distinct (map key news) \<and>
           (\<forall>n \<in> set news. key n \<notin> key ` set (objects s) \<union> key ` set T0)"
proof (induction forms arbitrary: s)
  case Nil
  then show ?case by simp
next
  case (Cons x forms)
  show ?case
  proof (cases "form_instance x = None \<and> has_changed x \<and> \<not> (d \<and> should_delete_form x)")
    case False
    then have "save_new_objects ops d (x # forms) s = save_new_objects ops d forms s"
      by (auto split: option.splits)
    with Cons.IH [of s] show ?thesis by simp
  next
    case True
    let ?n = "new_row ops x (objects s)"
    let ?s1 = "s\<lparr>objects := objects s @ [?n], instances := instances s @ [?n]\<rparr>"
    have eq: "save_new_objects ops d (x # forms) s = save_new_objects ops d forms ?s1"
      using True by auto
    from Cons.IH [of ?s1] obtain news where
      n: "objects (save_new_objects ops d forms ?s1) = objects ?s1 @ news"
         "instances (save_new_objects ops d forms ?s1) = instances ?s1 @ news"
         "deleted_objects (save_new_objects ops d forms ?s1) = deleted_objects ?s1"
         "distinct (map key news)"
         "\<forall>n \<in> set news. key n \<notin> key ` set (objects ?s1) \<union> key ` set T0"
      by blast
    have fn: "key ?n \<notin> key ` set (objects s) \<union> key ` set T0"
      using fresh by blast
    have "objects (save_new_objects ops d (x # forms) s) = objects s @ (?n # news)"
      and "instances (save_new_objects ops d (x # forms) s) = instances s @ (?n # news)"
      and "deleted_objects (save_new_objects ops d (x # forms) s) = deleted_objects s"
      using n(1-3) unfolding eq by simp_all
    moreover have "distinct (map key (?n # news))"
      using n(4,5) by auto
    moreover have "\<forall>n \<in> set (?n # news). key n \<notin> key ` set (objects s) \<union> key ` set T0"
      using n(5) fn by auto
    ultimately show ?thesis by blast
  qed
qed

lemma formset_save_counts:
  fixes ops :: "'row model_ops"
  defines "key \<equiv> row_pk ops"
  assumes "distinct (map key table)"
    and "\<forall>form \<in> set formset. \<forall>obj. form_instance form = Some obj \<longrightarrow> obj \<in> set table"
    and "distinct (map key (instances_of formset))"
    and "\<forall>form obj. key (updated_row ops form obj) = key obj"
    and "\<forall>form \<in> set formset. \<forall>obj. form_instance form = Some obj \<longrightarrow> has_changed form \<longrightarrow>
           \<not> (can_delete kwargs = Some True \<and> should_delete_form form) \<longrightarrow>
           updated_row ops form obj \<noteq> obj"
    and "\<forall>form tbl. key (new_row ops form tbl) \<notin> key ` set tbl \<union> key ` set table"
  shows "length (instances (formset_save ops kwargs formset table)) =
           card {r \<in> set (objects (formset_save ops kwargs formset table)). r \<notin> set table}"
    and "length (deleted_objects (formset_save ops kwargs formset table)) =
           card {k \<in> key ` set table.
                 k \<notin> key ` set (objects (formset_save ops kwargs formset table))}"
proof -
  let ?d = "can_delete kwargs = Some True"
  let ?s0 = "\<lparr>objects = table, instances = [], deleted_objects = []\<rparr>"
  let ?s1 = "save_existing_objects ops ?d formset ?s0"
  let ?s2 = "save_new_objects ops ?d formset ?s1"
  have s2: "formset_save ops kwargs formset table = ?s2"
    by (simp add: formset_save_def Let_def)
  have e: "distinct (map key (objects ?s1))"
    "key ` set (objects ?s1) \<subseteq> key ` set table"
    "length (instances ?s1) = card {r \<in> set (objects ?s1). r \<notin> set table}"
    "length (deleted_objects ?s1) = card {k \<in> key ` set table. k \<notin> key ` set (objects ?s1)}"
    using save_existing_objects_counts [of ops ?s0 formset ?d] assms(2-6)
    by (simp_all add: key_def)
  from save_new_objects_counts [of ops table ?d formset ?s1] assms(7) obtain news where
    n: "objects ?s2 = objects ?s1 @ news" "instances ?s2 = instances ?s1 @ news"
       "deleted_objects ?s2 = deleted_objects ?s1" "distinct (map key news)"
       "\<forall>n \<in> set news. key n \<notin> key ` set (objects ?s1) \<union> key ` set table"
    unfolding key_def by blast
  have dn: "distinct news" using n(4) by (simp add: distinct_map)
  have newT: "\<forall>n \<in> set news. n \<notin> set table \<and> n \<notin> set (objects ?s1)"
    using n(5) by blast
  have N: "{r \<in> set (objects ?s2). r \<notin> set table} =
             {r \<in> set (objects ?s1). r \<notin> set table} \<union> set news"
    using n(1) newT by auto
  have disj: "{r \<in> set (objects ?s1). r \<notin> set table} \<inter> set news = {}"
    using newT by auto
  have "card {r \<in> set (objects ?s2). r \<notin> set table} =
          card {r \<in> set (objects ?s1). r \<notin> set table} + card (set news)"
    unfolding N by (rule card_Un_disjoint) (simp_all add: disj)
  then show "length (instances (formset_save ops kwargs formset table)) =
           card {r \<in> set (objects (formset_save ops kwargs formset table)). r \<notin> set table}"
    using e(3) n(2) dn by (simp add: s2 distinct_card)
  have K: "{k \<in> key ` set table. k \<notin> key ` set (objects ?s2)} =
             {k \<in> key ` set table. k \<notin> key ` set (objects ?s1)}"
  proof -
    have "key ` set news \<inter> key ` set table = {}" using n(5) by blast
    then show ?thesis unfolding n(1) by (auto simp: image_Un)
  qed
  show "length (deleted_objects (formset_save ops kwargs formset table)) =
           card {k \<in> key ` set table.
                 k \<notin> key ` set (objects (formset_save ops kwargs formset table))}"
    using e(4) n(3) K by (simp add: s2)
qed

lemma formset_valid_rows:
  "conflict_rows (snd (formset_valid v ext ops req t formset st)) =
     objects (formset_save ops (get_formset_factory_kwargs ext v req t) formset
                (conflict_rows st))"
  by (simp add: formset_valid_def ModelFormSetView_formset_valid_def Let_def)

text \<open>
  C3. For each conflict view, after a valid submission in which the save wrote \<open>nsaved\<close>
  rows and deleted \<open>ndeleted\<close> rows, the messages added to the request are: the
  saved-count message if and only if \<open>nsaved > 0\<close>, the deleted-count message if and only
  if \<open>ndeleted > 0\<close>, and the "no changes" message if and only if both counts are zero.
  Each count message carries its count in decimal, with the noun in the singular exactly
  for a count of one, and no other message is added. The counts are those of the table:
  \<open>nsaved\<close> is the number of rows of the table after the submission that were not rows of
  it before (created or modified), and \<open>ndeleted\<close> is the number of primary keys of the
  table before that are gone after. This holds where the forms edit stored rows, each row
  in at most one form, as a valid formset does, primary keys are unique, an update keeps
  the key and changes the row, and an insert takes a key never used.
\<close>

theorem formset_valid_messages:
  assumes "saved = formset_save ops (get_formset_factory_kwargs ext v req t) formset
                     (conflict_rows st)"
    and "nsaved = length (instances saved)" and "ndeleted = length (deleted_objects saved)"
    and "formset_valid v ext ops req t formset st = (response, st')"
  shows "(\<exists>emitted. messages st' = messages st @ map (Pair SUCCESS) emitted \<and>
           distinct emitted \<and>
           set emitted \<subseteq> {count_message ''Saved'' v nsaved,
                          count_message ''Deleted'' v ndeleted, no_changes_message v} \<and>
           (count_message ''Saved'' v nsaved \<in> set emitted \<longleftrightarrow> 0 < nsaved) \<and>
           (count_message ''Deleted'' v ndeleted \<in> set emitted \<longleftrightarrow> 0 < ndeleted) \<and>
           (no_changes_message v \<in> set emitted \<longleftrightarrow> nsaved = 0 \<and> ndeleted = 0)) \<and>
         (distinct (map (row_pk ops) (conflict_rows st)) \<and>
          (\<forall>form \<in> set formset. \<forall>obj. form_instance form = Some obj \<longrightarrow>
             obj \<in> set (conflict_rows st)) \<and>
          distinct (map (row_pk ops) (instances_of formset)) \<and>
          (\<forall>form obj. row_pk ops (updated_row ops form obj) = row_pk ops obj) \<and>
          (\<forall>form \<in> set formset. \<forall>obj. form_instance form = Some obj \<longrightarrow> has_changed form \<longrightarrow>
             \<not> (has_permission ext (user req) (edit_permission v) t \<and> should_delete_form form) \<longrightarrow>
             updated_row ops form obj \<noteq> obj) \<and>
          (\<forall>form table. row_pk ops (new_row ops form table) \<notin>
             row_pk ops ` set table \<union> row_pk ops ` set (conflict_rows st)) \<longrightarrow>
          nsaved = card {r \<in> set (conflict_rows st'). r \<notin> set (conflict_rows st)} \<and>
          ndeleted = card {k \<in> row_pk ops ` set (conflict_rows st).
                           k \<notin> row_pk ops ` set (conflict_rows st')})"
proof -
  let ?emitted =
    "(if nsaved > 0 then [count_message ''Saved'' v nsaved] else [])
     @ (if ndeleted > 0 then [count_message ''Deleted'' v ndeleted] else [])
     @ (if nsaved = 0 \<and> ndeleted = 0 then [no_changes_message v] else [])"
  have "messages st' = add_message v (messages st) nsaved ndeleted"
    using formset_valid_messages_eq [of v ext ops req t formset st] assms by simp
  then have "messages st' = messages st @ map (Pair SUCCESS) ?emitted"
    by (simp add: add_message_eq)
  moreover have "distinct ?emitted" by (simp add: messages_differ)
  moreover have "set ?emitted \<subseteq> {count_message ''Saved'' v nsaved,
                          count_message ''Deleted'' v ndeleted, no_changes_message v}"
    by auto
  moreover have "count_message ''Saved'' v nsaved \<in> set ?emitted \<longleftrightarrow> 0 < nsaved"
    by (simp add: messages_differ)
  moreover have "count_message ''Deleted'' v ndeleted \<in> set ?emitted \<longleftrightarrow> 0 < ndeleted"
    by (simp add: messages_differ)
  moreover have "no_changes_message v \<in> set ?emitted \<longleftrightarrow> nsaved = 0 \<and> ndeleted = 0"
    by (simp add: messages_differ)
  ultimately have msgs: "\<exists>emitted. messages st' = messages st @ map (Pair SUCCESS) emitted \<and>
           distinct emitted \<and>
           set emitted \<subseteq> {count_message ''Saved'' v nsaved,
                          count_message ''Deleted'' v ndeleted, no_changes_message v} \<and>
           (count_message ''Saved'' v nsaved \<in> set emitted \<longleftrightarrow> 0 < nsaved) \<and>
           (count_message ''Deleted'' v ndeleted \<in> set emitted \<longleftrightarrow> 0 < ndeleted) \<and>
           (no_changes_message v \<in> set emitted \<longleftrightarrow> nsaved = 0 \<and> ndeleted = 0)"
    by blast
  have rows: "conflict_rows st' = objects saved"
    using formset_valid_rows [of v ext ops req t formset st] assms(1,4) by simp
  have d: "(can_delete (get_formset_factory_kwargs ext v req t) = Some True) =
             has_permission ext (user req) (edit_permission v) t"
    by (simp add: get_formset_factory_kwargs_def get_edit_permission_def Let_def)
  have counts: "nsaved = card {r \<in> set (conflict_rows st'). r \<notin> set (conflict_rows st)} \<and>
          ndeleted = card {k \<in> row_pk ops ` set (conflict_rows st).
                           k \<notin> row_pk ops ` set (conflict_rows st')}"
    if "distinct (map (row_pk ops) (conflict_rows st))"
      and "\<forall>form \<in> set formset. \<forall>obj. form_instance form = Some obj \<longrightarrow>
             obj \<in> set (conflict_rows st)"
      and "distinct (map (row_pk ops) (instances_of formset))"
      and "\<forall>form obj. row_pk ops (updated_row ops form obj) = row_pk ops obj"
      and "\<forall>form \<in> set formset. \<forall>obj. form_instance form = Some obj \<longrightarrow> has_changed form \<longrightarrow>
             \<not> (has_permission ext (user req) (edit_permission v) t \<and> should_delete_form form) \<longrightarrow>
             updated_row ops form obj \<noteq> obj"
      and "\<forall>form table. row_pk ops (new_row ops form table) \<notin>
             row_pk ops ` set table \<union> row_pk ops ` set (conflict_rows st)"
    using formset_save_counts [of ops "conflict_rows st" formset
        "get_formset_factory_kwargs ext v req t"] that assms(1-3) rows
    unfolding d by simp
  from msgs counts show ?thesis by blast
qed

lemma fold_max_ge: "a \<le> fold max xs (a::nat) \<and> (\<forall>x \<in> set xs. x \<le> fold max xs a)"
proof (induction xs arbitrary: a)
  case Nil
  then show ?case by simp
next
  case (Cons y xs)
  from Cons.IH [of "max y a"] show ?case by auto
qed

lemma example_row_ops_fresh:
  "row_pk example_row_ops (new_row example_row_ops form table) \<notin>
     row_pk example_row_ops ` set table \<union>
     row_pk example_row_ops ` set [(5, ''1''), (6, ''1'')]"
proof -
  let ?m = "fold max (map fst table) 6"
  have "6 \<le> ?m" and "\<forall>r \<in> set table. fst r \<le> ?m"
    using fold_max_ge [of 6 "map fst table"] by simp_all
  then show ?thesis
    by (auto simp: example_row_ops_def)
qed

lemma example_rows_valid:
  "formset_valid AdjudicatorTeamConflictsView example_externals example_row_ops
     (example_request 2 []) 7 example_row_forms
     \<lparr>conflict_rows = [(5, ''1''), (6, ''1'')], messages = []\<rparr> =
   (HttpResponseRedirect ''/7/importer-simple-index/'',
    \<lparr>conflict_rows = [(5, ''2''), (7, ''2'')],
     messages = [(SUCCESS, ''Saved 2 adjudicator-team conflicts.''),
                 (SUCCESS, ''Deleted 1 adjudicator-team conflict.'')]\<rparr>)"
  by code_simp

lemma example_rows_save:
  "formset_save example_row_ops
     (get_formset_factory_kwargs example_externals AdjudicatorTeamConflictsView
        (example_request 2 []) 7)
     example_row_forms [(5, ''1''), (6, ''1'')] =
   \<lparr>objects = [(5, ''2''), (7, ''2'')], instances = [(5, ''2''), (7, ''2'')],
    deleted_objects = [(6, ''1'')]\<rparr>"
  by code_simp

lemma example_row_forms_stored:
  "distinct (map (row_pk example_row_ops) [(5, ''1''), (6, ''1'')])"
  "\<forall>form \<in> set example_row_forms. \<forall>obj. form_instance form = Some obj \<longrightarrow>
     obj \<in> set [(5, ''1''), (6, ''1'')]"
  "distinct (map (row_pk example_row_ops) (instances_of example_row_forms))"
  "\<forall>form obj. row_pk example_row_ops (updated_row example_row_ops form obj) =
     row_pk example_row_ops obj"
  by (simp_all add: example_row_ops_def example_row_forms_def)

lemma example_row_forms_updates:
  "\<forall>form \<in> set example_row_forms. \<forall>obj. form_instance form = Some obj \<longrightarrow>
     has_changed form \<longrightarrow>
     \<not> (has_permission example_externals (user (example_request 2 []))
           (edit_permission AdjudicatorTeamConflictsView) 7 \<and> should_delete_form form) \<longrightarrow>
     updated_row example_row_ops form obj \<noteq> obj"
proof -
  have "should_delete_form (example_row_forms ! 1)" by code_simp
  moreover have "has_permission example_externals (user (example_request 2 []))
           (edit_permission AdjudicatorTeamConflictsView) 7"
    by (simp add: example_externals_def example_request_def)
  ultimately show ?thesis
    by (simp add: example_row_forms_def example_row_ops_def value_or_empty_def)
qed

theorem formset_valid_messages_witness:
  "formset_valid AdjudicatorTeamConflictsView example_externals example_row_ops
     (example_request 2 []) 7 example_row_forms
     \<lparr>conflict_rows = [(5, ''1''), (6, ''1'')], messages = []\<rparr> =
   (HttpResponseRedirect ''/7/importer-simple-index/'',
    \<lparr>conflict_rows = [(5, ''2''), (7, ''2'')],
     messages = [(SUCCESS, ''Saved 2 adjudicator-team conflicts.''),
                 (SUCCESS, ''Deleted 1 adjudicator-team conflict.'')]\<rparr>) \<and>
   card {r \<in> set [(5, ''2''), (7, ''2'')]. r \<notin> set [(5::nat, ''1''), (6, ''1'')]} = 2 \<and>
   card {k \<in> fst ` set [(5::nat, ''1''), (6, ''1'')]. k \<notin> fst ` set [(5, ''2''), (7, ''2'')]}
     = 1"
proof -
  note valid = example_rows_valid
  have pk: "row_pk example_row_ops = fst" by (simp add: example_row_ops_def)
  from formset_valid_messages [OF refl refl refl valid]
    example_row_forms_stored example_row_forms_updates example_row_ops_fresh
  have "length (instances (formset_save example_row_ops
          (get_formset_factory_kwargs example_externals AdjudicatorTeamConflictsView
             (example_request 2 []) 7) example_row_forms [(5, ''1''), (6, ''1'')])) =
        card {r \<in> set [(5, ''2''), (7, ''2'')]. r \<notin> set [(5::nat, ''1''), (6, ''1'')]} \<and>
        length (deleted_objects (formset_save example_row_ops
          (get_formset_factory_kwargs example_externals AdjudicatorTeamConflictsView
             (example_request 2 []) 7) example_row_forms [(5, ''1''), (6, ''1'')])) =
        card {k \<in> fst ` set [(5::nat, ''1''), (6, ''1'')].
              k \<notin> fst ` set [(5, ''2''), (7, ''2'')]}"
    by (simp add: pk)
  then show ?thesis
    using valid by (simp add: example_rows_save)
qed

subsection \<open>The permission gate\<close>

lemma keys_Base_get_formset:
  "form' \<in> set (BaseAdjudicatorConflictsView_get_formset ext v req t formset) \<Longrightarrow>
     \<exists>form \<in> set formset. map fst (form_fields form') = map fst (form_fields form)"
  by (auto simp: BaseAdjudicatorConflictsView_get_formset_def case_prod_unfold comp_def
      split: if_splits)

lemma length_Base_get_formset [simp]:
  "length (BaseAdjudicatorConflictsView_get_formset ext v req t formset) = length formset"
  by (simp add: BaseAdjudicatorConflictsView_get_formset_def)

lemma setattr_field_present:
  "key \<in> set (map fst (form_fields form)) \<Longrightarrow>
     setattr_field key assign form = Inr (assign_field key assign form)"
  by (simp add: setattr_field_Inr)

lemma for_each_length: "for_each body xs = Inr ys \<Longrightarrow> length ys = length xs"
  by (drule for_each_Inr) (rule list_all2_lengthD [symmetric])

lemma get_formset_total:
  assumes "\<forall>form \<in> set formset.
             set (kw_fields (formset_factory_kwargs v)) \<subseteq> set (map fst (form_fields form))"
  shows "\<exists>fs. get_formset v ext db req t formset = Inr fs \<and> length fs = length formset"
proof -
  have keys: "set (kw_fields (formset_factory_kwargs v)) \<subseteq> set (map fst (form_fields form'))"
    if "form' \<in> set (BaseAdjudicatorConflictsView_get_formset ext v req t formset)" for form'
    using keys_Base_get_formset [OF that] assms by metis
  have "\<exists>fs. get_formset v ext db req t formset = Inr fs"
  proof (cases v)
    case AdjudicatorTeamConflictsView
    then show ?thesis
      using keys unfolding AdjudicatorTeamConflictsView
      by (auto simp: AdjudicatorTeamConflictsView_get_formset_def Let_def and_then_def
          setattr_field_present intro!: for_each_total)
  next
    case AdjudicatorAdjudicatorConflictsView
    then show ?thesis
      using keys unfolding AdjudicatorAdjudicatorConflictsView
      by (auto simp: AdjudicatorAdjudicatorConflictsView_get_formset_def Let_def and_then_def
          setattr_field_present intro!: for_each_total)
  next
    case AdjudicatorInstitutionConflictsView
    then show ?thesis
      using keys unfolding AdjudicatorInstitutionConflictsView
      by (auto simp: AdjudicatorInstitutionConflictsView_get_formset_def Let_def and_then_def
          setattr_field_present intro!: for_each_total)
  next
    case TeamInstitutionConflictsView
    then show ?thesis
      using keys unfolding TeamInstitutionConflictsView
      by (auto simp: TeamInstitutionConflictsView_get_formset_def Let_def and_then_def
          setattr_field_present intro!: for_each_total)
  qed
  then obtain fs where fs: "get_formset v ext db req t formset = Inr fs" by blast
  then have "length fs = length formset"
    by (cases v)
       (auto simp: AdjudicatorTeamConflictsView_get_formset_def
          AdjudicatorAdjudicatorConflictsView_get_formset_def
          AdjudicatorInstitutionConflictsView_get_formset_def
          TeamInstitutionConflictsView_get_formset_def Let_def dest!: for_each_length)
  with fs show ?thesis by blast
qed

lemma kw_fields_kwargs [simp]:
  "kw_fields (get_formset_factory_kwargs ext v req t) = kw_fields (formset_factory_kwargs v)"
  by (simp add: get_formset_factory_kwargs_def Let_def)

lemma keys_factory_fields:
  "map fst (factory_fields kwargs) =
     kw_fields kwargs @ [''id''] @ (if can_delete kwargs = Some True then [''DELETE''] else [])"
  by (simp add: factory_fields_def comp_def)

lemma form_fields_construct_form [simp]:
  "form_fields (construct_form md bf kwargs bound rows i) = factory_fields kwargs"
  by (simp add: construct_form_def split: option.splits)

lemma DELETE_not_declared: "''DELETE'' \<notin> set (kw_fields (formset_factory_kwargs v))"
  "''id'' \<notin> set (kw_fields (formset_factory_kwargs v))"
  by (cases v; simp)+

lemma get_formset_length:
  "get_formset v ext db req t formset = Inr fs \<Longrightarrow> length fs = length formset"
  by (cases v)
     (auto simp: AdjudicatorTeamConflictsView_get_formset_def
        AdjudicatorAdjudicatorConflictsView_get_formset_def
        AdjudicatorInstitutionConflictsView_get_formset_def
        TeamInstitutionConflictsView_get_formset_def Let_def dest!: for_each_length)

lemma Base_get_formset_rest:
  "map form_instance (BaseAdjudicatorConflictsView_get_formset ext v req t formset) =
     map form_instance formset"
  "map initial (BaseAdjudicatorConflictsView_get_formset ext v req t formset) =
     map initial formset"
  "map data (BaseAdjudicatorConflictsView_get_formset ext v req t formset) = map data formset"
  "map (\<lambda>form. map fst (form_fields form))
     (BaseAdjudicatorConflictsView_get_formset ext v req t formset) =
   map (\<lambda>form. map fst (form_fields form)) formset"
  by (simp_all add: BaseAdjudicatorConflictsView_get_formset_def comp_def case_prod_unfold)

lemma get_formset_rest:
  assumes "get_formset v ext db req t formset = Inr fs"
  shows "map form_instance fs = map form_instance formset"
    and "map initial fs = map initial formset"
    and "map data fs = map data formset"
    and "map (\<lambda>form. map fst (form_fields form)) fs =
         map (\<lambda>form. map fst (form_fields form)) formset"
proof -
  have "map form_instance fs = map form_instance formset \<and>
        map initial fs = map initial formset \<and> map data fs = map data formset \<and>
        map (\<lambda>form. map fst (form_fields form)) fs =
          map (\<lambda>form. map fst (form_fields form)) formset"
  proof (cases v)
    case AdjudicatorTeamConflictsView
    with assms show ?thesis
      using AdjudicatorTeam_get_formset_Inr [of ext db req t formset fs]
        Base_get_formset_rest [of ext v req t formset]
      by (simp add: comp_def)
  next
    case AdjudicatorAdjudicatorConflictsView
    with assms show ?thesis
      using AdjudicatorAdjudicator_get_formset_Inr [of ext db req t formset fs]
        Base_get_formset_rest [of ext v req t formset]
      by (simp add: comp_def)
  next
    case AdjudicatorInstitutionConflictsView
    with assms show ?thesis
      using AdjudicatorInstitution_get_formset_Inr [of ext db req t formset fs]
        Base_get_formset_rest [of ext v req t formset]
      by (simp add: comp_def)
  next
    case TeamInstitutionConflictsView
    with assms show ?thesis
      using TeamInstitution_get_formset_Inr [of ext db req t formset fs]
        Base_get_formset_rest [of ext v req t formset]
      by (simp add: comp_def)
  qed
  then show "map form_instance fs = map form_instance formset"
    and "map initial fs = map initial formset"
    and "map data fs = map data formset"
    and "map (\<lambda>form. map fst (form_fields form)) fs =
         map (\<lambda>form. map fst (form_fields form)) formset"
    by simp_all
qed

lemma built_keys:
  "map (\<lambda>form. map fst (form_fields form))
     (ModelFormSetView_get_formset md bf kwargs bound rows) =
   replicate (total_form_count kwargs bound rows) (map fst (factory_fields kwargs))"
  by (simp add: ModelFormSetView_get_formset_def comp_def map_replicate_const)

lemma unbound_instances:
  "map form_instance (ModelFormSetView_get_formset md bf kwargs None rows) =
     map (\<lambda>i. if i < length rows then Some (rows ! i) else None)
       [0 ..< total_form_count kwargs None rows]"
  by (simp add: ModelFormSetView_get_formset_def construct_form_def comp_def)

lemma unbound_total_ge: "length rows \<le> total_form_count kwargs None rows"
  by (simp add: total_form_count_def Let_def DEFAULT_MAX_NUM_def)

lemma view_get_formset_total:
  "\<exists>fs. view_get_formset v ext db md bf req t bound rows = Inr fs \<and>
        length fs = total_form_count (get_formset_factory_kwargs ext v req t) bound rows"
proof -
  let ?kwargs = "get_formset_factory_kwargs ext v req t"
  let ?built = "ModelFormSetView_get_formset md bf ?kwargs bound rows"
  have "set (kw_fields (formset_factory_kwargs v)) \<subseteq> set (map fst (factory_fields ?kwargs))"
    unfolding keys_factory_fields by auto
  then have "set (kw_fields (formset_factory_kwargs v)) \<subseteq> fst ` set (factory_fields ?kwargs)"
    by simp
  then have "\<forall>form \<in> set ?built.
          set (kw_fields (formset_factory_kwargs v)) \<subseteq> set (map fst (form_fields form))"
    by (auto simp: ModelFormSetView_get_formset_def)
  from get_formset_total [OF this, of ext db req t]
  show ?thesis
    by (simp add: view_get_formset_def ModelFormSetView_get_formset_def)
qed

lemma view_get_formset_keys:
  assumes "view_get_formset v ext db md bf req t bound rows = Inr fs" and "form \<in> set fs"
  shows "map fst (form_fields form) =
           map fst (factory_fields (get_formset_factory_kwargs ext v req t))"
proof -
  have "map (\<lambda>form. map fst (form_fields form)) fs =
          replicate (total_form_count (get_formset_factory_kwargs ext v req t) bound rows)
            (map fst (factory_fields (get_formset_factory_kwargs ext v req t)))"
    using get_formset_rest(4) [OF assms(1) [unfolded view_get_formset_def]]
    by (simp add: built_keys)
  then have "map fst (form_fields form) \<in>
      set (replicate (total_form_count (get_formset_factory_kwargs ext v req t) bound rows)
            (map fst (factory_fields (get_formset_factory_kwargs ext v req t))))"
    using assms(2) by (metis (no_types, lifting) image_eqI set_map)
  then show ?thesis by (auto simp: set_replicate_conv_if split: if_splits)
qed

lemma view_get_formset_DELETE:
  assumes "view_get_formset v ext db md bf req t bound rows = Inr fs" and "form \<in> set fs"
  shows "(''DELETE'' \<in> set (map fst (form_fields form))) =
           has_permission ext (user req) (edit_permission v) t"
proof -
  have "(can_delete (get_formset_factory_kwargs ext v req t) = Some True) =
          has_permission ext (user req) (edit_permission v) t"
    by (simp add: get_formset_factory_kwargs_def get_edit_permission_def Let_def)
  then show ?thesis
    unfolding view_get_formset_keys [OF assms]
    using DELETE_not_declared(1) [of v] by (simp add: keys_factory_fields)
qed

lemma unbound_extra_count:
  "total_form_count (get_formset_factory_kwargs ext v req t) None rows - length rows =
     (if has_permission ext (user req) (edit_permission v) t
      then min 10 (1000 - length rows) else 0)"
  by (auto simp: total_form_count_def get_formset_factory_kwargs_def get_edit_permission_def
      Let_def DEFAULT_MAX_NUM_def)

lemma map_Some_nth:
  "map (\<lambda>i. if i < length rows then Some (rows ! i) else None) [0 ..< length rows] =
     map Some rows"
proof -
  have "map (\<lambda>i. if i < length rows then Some (rows ! i) else None) [0 ..< length rows] =
          map (\<lambda>i. Some (rows ! i)) [0 ..< length rows]"
    by (rule map_cong) simp_all
  also have "\<dots> = map Some (map ((!) rows) [0 ..< length rows])"
    by (simp add: comp_def)
  also have "\<dots> = map Some rows"
    by (simp only: map_nth)
  finally show ?thesis .
qed

lemma view_get_formset_unbound:
  assumes "view_get_formset v ext db md bf req t None rows = Inr fs"
  shows "map form_instance (take (length rows) fs) = map Some rows"
    and "\<forall>form \<in> set (extra_forms None rows fs).
           form_instance form = None \<and> initial form = [] \<and> data form = []"
proof -
  let ?kwargs = "get_formset_factory_kwargs ext v req t"
  let ?n = "total_form_count ?kwargs None rows"
  let ?built = "ModelFormSetView_get_formset md bf ?kwargs None rows"
  note rest = get_formset_rest [OF assms [unfolded view_get_formset_def]]
  have le: "length rows \<le> ?n" by (rule unbound_total_ge)
  have "map form_instance (take (length rows) fs) =
          take (length rows) (map form_instance ?built)"
    by (simp add: rest(1) flip: take_map)
  also have "\<dots> = map (\<lambda>i. if i < length rows then Some (rows ! i) else None)
                      [0 ..< length rows]"
    using le by (simp add: unbound_instances take_map min_def)
  also have "\<dots> = map Some rows"
    by (rule map_Some_nth)
  finally show "map form_instance (take (length rows) fs) = map Some rows" .
  have blank: "form_instance form = None \<and> initial form = [] \<and> data form = []"
    if "form \<in> set (drop (length rows) ?built)" for form
    using that
    by (auto simp: ModelFormSetView_get_formset_def construct_form_def drop_map)
  have eqs: "map form_instance (drop (length rows) fs) =
               map form_instance (drop (length rows) ?built)"
    "map initial (drop (length rows) fs) = map initial (drop (length rows) ?built)"
    "map data (drop (length rows) fs) = map data (drop (length rows) ?built)"
    using rest(1-3) by (simp_all flip: drop_map)
  show "\<forall>form \<in> set (extra_forms None rows fs).
           form_instance form = None \<and> initial form = [] \<and> data form = []"
  proof
    fix form assume "form \<in> set (extra_forms None rows fs)"
    then have m: "form \<in> set (drop (length rows) fs)"
      by (simp add: extra_forms_def initial_form_count_def)
    then have "form_instance form \<in> set (map form_instance (drop (length rows) ?built))"
      and "initial form \<in> set (map initial (drop (length rows) ?built))"
      and "data form \<in> set (map data (drop (length rows) ?built))"
      unfolding eqs [symmetric] by simp_all
    with blank show "form_instance form = None \<and> initial form = [] \<and> data form = []"
      by auto
  qed
qed

text \<open>
  C4. For each conflict view and every request, \<open>get_formset\<close> returns a formset. With
  edit rights the formset factory is given \<open>extra = 10\<close> and \<open>can_delete = True\<close>, and every
  form has the deletion field; without them it is given \<open>extra = 0\<close> and
  \<open>can_delete = False\<close>, no form has the deletion field, and every field of every form is
  disabled. The formset shown for a GET has one form per editable row, in order, followed
  by blank forms only: ten with edit rights, or as many as fit within the factory's limit
  of 1000 forms, and none without edit rights. The formset bound to a POST has as many
  forms as its payload declares, at most 2000, whatever the rights.
\<close>

theorem formset_rows_offered:
  "\<exists>fs. view_get_formset v ext db md bf req t bound rows = Inr fs \<and>
     length fs = total_form_count (get_formset_factory_kwargs ext v req t) bound rows \<and>
     (has_permission ext (user req) (edit_permission v) t \<longrightarrow>
        extra (get_formset_factory_kwargs ext v req t) = Some 10 \<and>
        can_delete (get_formset_factory_kwargs ext v req t) = Some True) \<and>
     (\<not> has_permission ext (user req) (edit_permission v) t \<longrightarrow>
        extra (get_formset_factory_kwargs ext v req t) = Some 0 \<and>
        can_delete (get_formset_factory_kwargs ext v req t) = Some False \<and>
        (\<forall>form \<in> set fs. \<forall>(name, fld) \<in> set (form_fields form). disabled fld)) \<and>
     (\<forall>form \<in> set fs. (''DELETE'' \<in> set (map fst (form_fields form))) =
                        has_permission ext (user req) (edit_permission v) t) \<and>
     (case bound of
        None \<Rightarrow>
          map form_instance (take (length rows) fs) = map Some rows \<and>
          (\<forall>form \<in> set (extra_forms None rows fs).
             form_instance form = None \<and> initial form = [] \<and> data form = []) \<and>
          length (extra_forms None rows fs) =
            (if has_permission ext (user req) (edit_permission v) t
             then min 10 (1000 - length rows) else 0)
      | Some management \<Rightarrow> length fs = min (TOTAL_FORMS management) 2000)"
proof -
  obtain fs where fs: "view_get_formset v ext db md bf req t bound rows = Inr fs"
    and len: "length fs = total_form_count (get_formset_factory_kwargs ext v req t) bound rows"
    using view_get_formset_total by blast
  have dis: "\<forall>form \<in> set fs. \<forall>(name, fld) \<in> set (form_fields form). disabled fld"
    if "\<not> has_permission ext (user req) (edit_permission v) t"
    using get_formset_disabled [OF that fs [unfolded view_get_formset_def]] by blast
  have del: "\<forall>form \<in> set fs. (''DELETE'' \<in> set (map fst (form_fields form))) =
                        has_permission ext (user req) (edit_permission v) t"
    using view_get_formset_DELETE [OF fs] by blast
  have shape: "case bound of
        None \<Rightarrow>
          map form_instance (take (length rows) fs) = map Some rows \<and>
          (\<forall>form \<in> set (extra_forms None rows fs).
             form_instance form = None \<and> initial form = [] \<and> data form = []) \<and>
          length (extra_forms None rows fs) =
            (if has_permission ext (user req) (edit_permission v) t
             then min 10 (1000 - length rows) else 0)
      | Some management \<Rightarrow> length fs = min (TOTAL_FORMS management) 2000"
  proof (cases bound)
    case None
    have "length (extra_forms None rows fs) =
            total_form_count (get_formset_factory_kwargs ext v req t) None rows - length rows"
      using len None by (simp add: extra_forms_def initial_form_count_def)
    with view_get_formset_unbound [OF fs [unfolded None]] None show ?thesis
      by (simp add: unbound_extra_count)
  next
    case (Some management)
    with len show ?thesis
      by (simp add: total_form_count_def DEFAULT_MAX_NUM_def)
  qed
  from fs len dis del shape kwargs_permission [of ext req v t]
    kwargs_no_permission [of ext req v t]
  show ?thesis by blast
qed

theorem ten_blank_rows_counterexample:
  "has_permission example_externals
     (user (example_request 2 [(''form-TOTAL_FORMS'', ''1''), (''form-INITIAL_FORMS'', ''1'')]))
     (edit_permission AdjudicatorTeamConflictsView) 7 \<and>
   map_sum id (\<lambda>fs. length (extra_forms (Some \<lparr>TOTAL_FORMS = 1, INITIAL_FORMS = 1\<rparr>) [5] fs))
     (view_get_formset AdjudicatorTeamConflictsView example_externals example_database
        example_model_to_dict (\<lambda>i. example_form)
        (example_request 2 [(''form-TOTAL_FORMS'', ''1''), (''form-INITIAL_FORMS'', ''1'')]) 7
        (Some \<lparr>TOTAL_FORMS = 1, INITIAL_FORMS = 1\<rparr>) [5]) = Inr 0 \<and>
   \<not> has_permission example_externals
     (user (example_request 3 [(''form-TOTAL_FORMS'', ''3''), (''form-INITIAL_FORMS'', ''1'')]))
     (edit_permission AdjudicatorTeamConflictsView) 7 \<and>
   map_sum id (\<lambda>fs. length (extra_forms (Some \<lparr>TOTAL_FORMS = 3, INITIAL_FORMS = 1\<rparr>) [5] fs))
     (view_get_formset AdjudicatorTeamConflictsView example_externals example_database
        example_model_to_dict (\<lambda>i. example_form)
        (example_request 3 [(''form-TOTAL_FORMS'', ''3''), (''form-INITIAL_FORMS'', ''1'')]) 7
        (Some \<lparr>TOTAL_FORMS = 3, INITIAL_FORMS = 1\<rparr>) [5]) = Inr 2"
  by code_simp

theorem formset_rows_offered_witness:
  "has_permission example_externals (user (example_request 2 []))
     (edit_permission AdjudicatorTeamConflictsView) 7 \<and>
   (\<exists>fs. view_get_formset AdjudicatorTeamConflictsView example_externals example_database
            example_model_to_dict (\<lambda>i. example_form) (example_request 2 []) 7 None [5, 6]
          = Inr fs \<and>
      length fs = 12 \<and> map form_instance (take (length [5::nat, 6]) fs) = [Some 5, Some 6] \<and>
      length (extra_forms None [5, 6] fs) = 10 \<and>
      list_all (\<lambda>form. ''DELETE'' \<in> set (map fst (form_fields form))) fs) \<and>
   \<not> has_permission example_externals (user (example_request 3 []))
     (edit_permission AdjudicatorTeamConflictsView) 7 \<and>
   (\<exists>fs. view_get_formset AdjudicatorTeamConflictsView example_externals example_database
            example_model_to_dict (\<lambda>i. example_form) (example_request 3 []) 7 None [5, 6]
          = Inr fs \<and>
      length fs = 2 \<and> extra_forms None [5, 6] fs = [] \<and>
      list_all (\<lambda>form. list_all (\<lambda>(name, fld). disabled fld) (form_fields form)) fs)"
proof -
  have y: "has_permission example_externals (user (example_request 2 []))
     (edit_permission AdjudicatorTeamConflictsView) 7"
    and n: "\<not> has_permission example_externals (user (example_request 3 []))
     (edit_permission AdjudicatorTeamConflictsView) 7"
    by (simp_all add: example_externals_def example_request_def)
  have t2: "total_form_count (get_formset_factory_kwargs example_externals
              AdjudicatorTeamConflictsView (example_request 2 []) 7) None [5::nat, 6] = 12"
    and t3: "total_form_count (get_formset_factory_kwargs example_externals
              AdjudicatorTeamConflictsView (example_request 3 []) 7) None [5::nat, 6] = 2"
    by code_simp+
  from formset_rows_offered [of AdjudicatorTeamConflictsView example_externals
      example_database example_model_to_dict "\<lambda>i. example_form" "example_request 2 []" 7
      None "[5, 6]"] y
  have a: "\<exists>fs. view_get_formset AdjudicatorTeamConflictsView example_externals example_database
            example_model_to_dict (\<lambda>i. example_form) (example_request 2 []) 7 None [5, 6]
          = Inr fs \<and>
      length fs = 12 \<and> map form_instance (take (length [5::nat, 6]) fs) = [Some 5, Some 6] \<and>
      length (extra_forms None [5, 6] fs) = 10 \<and>
      list_all (\<lambda>form. ''DELETE'' \<in> set (map fst (form_fields form))) fs"
    by (auto simp: t2 list_all_iff)
  from formset_rows_offered [of AdjudicatorTeamConflictsView example_externals
      example_database example_model_to_dict "\<lambda>i. example_form" "example_request 3 []" 7
      None "[5, 6]"] n
  have b: "\<exists>fs. view_get_formset AdjudicatorTeamConflictsView example_externals example_database
            example_model_to_dict (\<lambda>i. example_form) (example_request 3 []) 7 None [5, 6]
          = Inr fs \<and>
      length fs = 2 \<and> extra_forms None [5, 6] fs = [] \<and>
      list_all (\<lambda>form. list_all (\<lambda>(name, fld). disabled fld) (form_fields form)) fs"
    by (auto simp: t3 list_all_iff)
  from y a n b show ?thesis by blast
qed

subsection \<open>Where a valid submission redirects\<close>

text \<open>
  C8. For each conflict view and every valid submission: when the key \<open>add_more\<close> is in
  the POST data the response redirects to the URL of the same view for the tournament;
  when it is absent the response redirects to the URL of \<open>importer-simple-index\<close> for the
  tournament.
\<close>

theorem valid_submission_redirect:
  assumes "get_formset v ext db req t built = Inr formset" and "is_valid formset"
  shows "\<exists>st'. post v ext db ops is_valid req t built st =
           Inr (if ''add_more'' \<in> fst ` set (POST req)
                then HttpResponseRedirect (reverse_tournament ext (same_view v) t)
                else HttpResponseRedirect (reverse_tournament ext ''importer-simple-index'' t),
                st')"
  using assms
  by (simp add: post_def and_then_def formset_valid_def ModelFormSetView_formset_valid_def
      Let_def redirect_tournament_def get_success_url_def)

theorem valid_submission_redirect_witness:
  "(\<exists>st'. post AdjudicatorTeamConflictsView example_externals example_database example_ops
            (\<lambda>fs. True) (example_request 2 [(''add_more'', ''1'')]) 7 [example_form]
            \<lparr>conflict_rows = [5, 6], messages = []\<rparr> =
          Inr (HttpResponseRedirect ''/7/adjallocation-conflicts-adj-team/'', st')) \<and>
   (\<exists>st'. post AdjudicatorTeamConflictsView example_externals example_database example_ops
            (\<lambda>fs. True) (example_request 2 [(''csrf'', ''x'')]) 7 [example_form]
            \<lparr>conflict_rows = [5, 6], messages = []\<rparr> =
          Inr (HttpResponseRedirect ''/7/importer-simple-index/'', st'))"
proof -
  have d: "decimal 7 = ''7''" by code_simp
  have k: "\<forall>form \<in> set [example_form].
       set (kw_fields (formset_factory_kwargs AdjudicatorTeamConflictsView))
         \<subseteq> set (map fst (form_fields form))"
    by (simp add: example_form_def)
  obtain fs1 where fs1: "get_formset AdjudicatorTeamConflictsView example_externals
      example_database (example_request 2 [(''add_more'', ''1'')]) 7 [example_form] = Inr fs1"
    using get_formset_total [OF k] by blast
  obtain fs2 where fs2: "get_formset AdjudicatorTeamConflictsView example_externals
      example_database (example_request 2 [(''csrf'', ''x'')]) 7 [example_form] = Inr fs2"
    using get_formset_total [OF k] by blast
  from valid_submission_redirect [OF fs1, of "\<lambda>fs. True" example_ops
      "\<lparr>conflict_rows = [5, 6], messages = []\<rparr>"]
  have "\<exists>st'. post AdjudicatorTeamConflictsView example_externals example_database example_ops
            (\<lambda>fs. True) (example_request 2 [(''add_more'', ''1'')]) 7 [example_form]
            \<lparr>conflict_rows = [5, 6], messages = []\<rparr> =
          Inr (HttpResponseRedirect ''/7/adjallocation-conflicts-adj-team/'', st')"
    by (simp add: example_request_def example_externals_def d)
  moreover
  from valid_submission_redirect [OF fs2, of "\<lambda>fs. True" example_ops
      "\<lparr>conflict_rows = [5, 6], messages = []\<rparr>"]
  have "\<exists>st'. post AdjudicatorTeamConflictsView example_externals example_database example_ops
            (\<lambda>fs. True) (example_request 2 [(''csrf'', ''x'')]) 7 [example_form]
            \<lparr>conflict_rows = [5, 6], messages = []\<rparr> =
          Inr (HttpResponseRedirect ''/7/importer-simple-index/'', st')"
    by (simp add: example_request_def example_externals_def d)
  ultimately show ?thesis by blast
qed

subsection \<open>Querysets of the editable rows\<close>

lemma order_by_sorted: "sorted (map key (order_by key rows))"
  by (simp add: order_by_def)

lemma order_by_mset: "mset (order_by key rows) = mset rows"
  by (simp add: order_by_def)

text \<open>
  C7. The editable row set of each conflict view holds exactly the rows of its conflict
  model that belong to the current tournament, reached through \<open>adjudicator\<close>,
  \<open>adjudicator1\<close> or \<open>team\<close>, each as often as the table holds it, in ascending order:
  of the adjudicator's name in the three adjudicator views, of the team's short name in
  the team-institution view.
\<close>

theorem formset_querysets_filtered_and_ordered:
  "mset (AdjudicatorTeamConflictsView_get_formset_queryset db t) =
     mset (filter (\<lambda>c. adjudicator_tournament (atc_adjudicator c) = t)
             (AdjudicatorTeamConflict_objects db)) \<and>
   sorted (map (\<lambda>c. adjudicator_name (atc_adjudicator c))
             (AdjudicatorTeamConflictsView_get_formset_queryset db t)) \<and>
   mset (AdjudicatorAdjudicatorConflictsView_get_formset_queryset db t) =
     mset (filter (\<lambda>c. adjudicator_tournament (adjudicator1 c) = t)
             (AdjudicatorAdjudicatorConflict_objects db)) \<and>
   sorted (map (\<lambda>c. adjudicator_name (adjudicator1 c))
             (AdjudicatorAdjudicatorConflictsView_get_formset_queryset db t)) \<and>
   mset (AdjudicatorInstitutionConflictsView_get_formset_queryset db t) =
     mset (filter (\<lambda>c. adjudicator_tournament (aic_adjudicator c) = t)
             (AdjudicatorInstitutionConflict_objects db)) \<and>
   sorted (map (\<lambda>c. adjudicator_name (aic_adjudicator c))
             (AdjudicatorInstitutionConflictsView_get_formset_queryset db t)) \<and>
   mset (TeamInstitutionConflictsView_get_formset_queryset db t) =
     mset (filter (\<lambda>c. team_tournament (tic_team c) = t)
             (TeamInstitutionConflict_objects db)) \<and>
   sorted (map (\<lambda>c. short_name (tic_team c))
             (TeamInstitutionConflictsView_get_formset_queryset db t))"
  unfolding AdjudicatorTeamConflictsView_get_formset_queryset_def
    AdjudicatorAdjudicatorConflictsView_get_formset_queryset_def
    AdjudicatorInstitutionConflictsView_get_formset_queryset_def
    TeamInstitutionConflictsView_get_formset_queryset_def
  by (simp only: order_by_sorted order_by_mset simp_thms)


lemma example_querysets:
  "map atc_id (AdjudicatorTeamConflictsView_get_formset_queryset example_database 7) = [3, 1]"
  "map aac_id (AdjudicatorAdjudicatorConflictsView_get_formset_queryset example_database 7)
     = [3, 1]"
  "map aic_id (AdjudicatorInstitutionConflictsView_get_formset_queryset example_database 7)
     = [2, 1]"
  "map tic_id (TeamInstitutionConflictsView_get_formset_queryset example_database 7) = [3, 1]"
  by code_simp+

theorem formset_querysets_filtered_and_ordered_witness:
  "map atc_id (AdjudicatorTeamConflictsView_get_formset_queryset example_database 7) = [3, 1] \<and>
   sorted (map (\<lambda>c. adjudicator_name (atc_adjudicator c))
             (AdjudicatorTeamConflictsView_get_formset_queryset example_database 7)) \<and>
   map tic_id (TeamInstitutionConflictsView_get_formset_queryset example_database 7) = [3, 1] \<and>
   sorted (map (\<lambda>c. short_name (tic_team c))
             (TeamInstitutionConflictsView_get_formset_queryset example_database 7))"
  using formset_querysets_filtered_and_ordered [of example_database 7] example_querysets
  by blast

subsection \<open>What the views assign to the fields\<close>

lemma TeamInstitution_team_field:
  assumes "TeamInstitutionConflictsView_get_formset ext db req t formset = Inr fs"
    and "form \<in> set fs" and "map_of (form_fields form) ''team'' = Some fld"
  shows "queryset fld = map TeamObj (order_by short_name (team_set db t)) \<and>
         use_code_names fld = Some (use_team_code_names ext t True (user req))"
proof -
  from TeamInstitution_get_formset_Inr [OF assms(1)] assms(2) obtain b where
    "form = assign_field ''institution''
             (set_queryset (map InstitutionObj (Institution_objects db)))
             (assign_field ''team''
                (\<lambda>fld. fld\<lparr>use_code_names := Some (use_team_code_names ext t True (user req))\<rparr>)
                (assign_field ''team''
                   (set_queryset (map TeamObj (order_by short_name (team_set db t)))) b))"
    by auto
  with assms(3) show ?thesis
    by (auto simp: map_of_assign_field set_queryset_def)
qed

lemma AdjudicatorTeam_team_field:
  assumes "AdjudicatorTeamConflictsView_get_formset ext db req t formset = Inr fs"
    and "form \<in> set fs" and "map_of (form_fields form) ''team'' = Some fld"
  shows "queryset fld = map TeamObj
           (order_by (if use_team_code_names ext t True (user req)
                      then code_name else short_name) (team_set db t)) \<and>
         use_code_names fld = Some (use_team_code_names ext t True (user req))"
proof -
  from AdjudicatorTeam_get_formset_Inr [OF assms(1)] assms(2) obtain b where
    "form = assign_field ''team''
             (\<lambda>fld. fld\<lparr>use_code_names := Some (use_team_code_names ext t True (user req))\<rparr>)
             (assign_field ''team''
                (set_queryset (map TeamObj
                   (order_by (if use_team_code_names ext t True (user req)
                              then code_name else short_name) (team_set db t))))
                (assign_field ''adjudicator''
                   (set_queryset (map AdjudicatorObj
                      (order_by adjudicator_name (adjudicator_set db t)))) b))"
    by auto
  with assms(3) show ?thesis
    by (auto simp: map_of_assign_field set_queryset_def)
qed

lemma TeamInstitution_institution_field:
  assumes "TeamInstitutionConflictsView_get_formset ext db req t formset = Inr fs"
    and "form \<in> set fs" and "map_of (form_fields form) ''institution'' = Some fld"
  shows "queryset fld = map InstitutionObj (Institution_objects db)"
proof -
  from TeamInstitution_get_formset_Inr [OF assms(1)] assms(2) obtain b where
    "form = assign_field ''institution''
             (set_queryset (map InstitutionObj (Institution_objects db)))
             (assign_field ''team''
                (\<lambda>fld. fld\<lparr>use_code_names := Some (use_team_code_names ext t True (user req))\<rparr>)
                (assign_field ''team''
                   (set_queryset (map TeamObj (order_by short_name (team_set db t)))) b))"
    by auto
  with assms(3) show ?thesis
    by (auto simp: map_of_assign_field set_queryset_def)
qed

lemma AdjudicatorInstitution_fields:
  assumes "AdjudicatorInstitutionConflictsView_get_formset ext db req t formset = Inr fs"
    and "form \<in> set fs"
  shows "map_of (form_fields form) ''institution'' = Some fld \<Longrightarrow>
           queryset fld = map InstitutionObj (Institution_objects db)"
    and "map_of (form_fields form) ''adjudicator'' = Some fld \<Longrightarrow>
           queryset fld = map AdjudicatorObj (order_by adjudicator_name (adjudicator_set db t))"
proof -
  from AdjudicatorInstitution_get_formset_Inr [OF assms(1)] assms(2) obtain b where
    f: "form = assign_field ''institution''
             (set_queryset (map InstitutionObj (Institution_objects db)))
             (assign_field ''adjudicator''
                (set_queryset (map AdjudicatorObj
                   (order_by adjudicator_name (adjudicator_set db t)))) b)"
    by auto
  show "map_of (form_fields form) ''institution'' = Some fld \<Longrightarrow>
           queryset fld = map InstitutionObj (Institution_objects db)"
    using f by (auto simp: map_of_assign_field set_queryset_def)
  show "map_of (form_fields form) ''adjudicator'' = Some fld \<Longrightarrow>
           queryset fld = map AdjudicatorObj (order_by adjudicator_name (adjudicator_set db t))"
    using f by (auto simp: map_of_assign_field set_queryset_def)
qed

lemma set_order_by [simp]: "set (order_by key rows) = set rows"
  by (simp add: order_by_def)

text \<open>
  C2. In the team-institution view the editable rows are in ascending order of the team's
  short name, and the team options of every form are the tournament's teams in ascending
  order of short name, whatever the code-name preference says; the label of each option
  is the code name when the preference is enabled and the short name otherwise.
\<close>

theorem team_institution_ordered_by_short_name:
  assumes "get_formset TeamInstitutionConflictsView ext db req t formset = Inr fs"
    and "form \<in> set fs" and "map_of (form_fields form) ''team'' = Some fld"
  shows "sorted (map (\<lambda>c. short_name (tic_team c))
                   (TeamInstitutionConflictsView_get_formset_queryset db t)) \<and>
         (\<exists>all_teams. queryset fld = map TeamObj all_teams \<and>
            sorted (map short_name all_teams) \<and>
            mset all_teams = mset (team_set db t) \<and>
            (\<forall>team \<in> set all_teams.
               TeamChoiceField_label_from_instance fld (TeamObj team) =
                 Inr (if use_team_code_names ext t True (user req)
                      then code_name team else short_name team)))"
proof -
  have "sorted (map (\<lambda>c. short_name (tic_team c))
                   (TeamInstitutionConflictsView_get_formset_queryset db t))"
    by (simp add: TeamInstitutionConflictsView_get_formset_queryset_def order_by_sorted)
  moreover have "queryset fld = map TeamObj (order_by short_name (team_set db t))"
    and u: "use_code_names fld = Some (use_team_code_names ext t True (user req))"
    using TeamInstitution_team_field [of ext db req t formset fs form fld] assms by simp_all
  moreover have "sorted (map short_name (order_by short_name (team_set db t)))"
    by (rule order_by_sorted)
  moreover have "mset (order_by short_name (team_set db t)) = mset (team_set db t)"
    by (rule order_by_mset)
  moreover have "\<forall>team \<in> set (order_by short_name (team_set db t)).
               TeamChoiceField_label_from_instance fld (TeamObj team) =
                 Inr (if use_team_code_names ext t True (user req)
                      then code_name team else short_name team)"
    using u by (simp add: TeamChoiceField_label_from_instance_def)
  ultimately show ?thesis by blast
qed

lemma example_team_institution_formset:
  "\<exists>form fld. get_formset TeamInstitutionConflictsView example_externals example_database
           (example_request 2 []) 7 [example_team_institution_form] = Inr [form] \<and>
     map_of (form_fields form) ''team'' = Some fld \<and>
     map_of (form_fields form) ''institution'' \<noteq> None"
  by (simp add: TeamInstitutionConflictsView_get_formset_def Let_def and_then_def
      setattr_field_def assign_field_def example_team_institution_form_def
      BaseAdjudicatorConflictsView_get_formset_def)

theorem team_institution_ordered_by_short_name_witness:
  "use_team_code_names example_externals 7 True (user (example_request 2 [])) \<and>
   (\<exists>form fld. get_formset TeamInstitutionConflictsView example_externals example_database
           (example_request 2 []) 7 [example_team_institution_form] = Inr [form] \<and>
      map_of (form_fields form) ''team'' = Some fld \<and>
      queryset fld = [TeamObj team_alpha, TeamObj team_beta] \<and>
      TeamChoiceField_label_from_instance fld (TeamObj team_alpha) = Inr ''Zebra'' \<and>
      TeamChoiceField_label_from_instance fld (TeamObj team_beta) = Inr ''Apple'')"
proof -
  obtain form fld where g: "get_formset TeamInstitutionConflictsView example_externals
      example_database (example_request 2 []) 7 [example_team_institution_form] = Inr [form]"
    and f: "map_of (form_fields form) ''team'' = Some fld"
    using example_team_institution_formset by blast
  have u: "use_team_code_names example_externals 7 True (user (example_request 2 []))"
    by (simp add: example_externals_def)
  have s: "team_set example_database 7 = [team_alpha, team_beta]"
    by (simp add: team_set_def example_database_def team_alpha_def team_beta_def
        team_gamma_def)
  from team_institution_ordered_by_short_name [OF g _ f] obtain all_teams where
    q: "queryset fld = map TeamObj all_teams" and "sorted (map short_name all_teams)"
    and "mset all_teams = mset (team_set example_database 7)"
    and l: "\<forall>team \<in> set all_teams.
               TeamChoiceField_label_from_instance fld (TeamObj team) =
                 Inr (if use_team_code_names example_externals 7 True
                           (user (example_request 2 []))
                      then code_name team else short_name team)"
    by auto
  have o: "order_by short_name [team_alpha, team_beta] = [team_alpha, team_beta]"
    by code_simp
  have "queryset fld = map TeamObj (order_by short_name (team_set example_database 7))"
    using TeamInstitution_team_field [of example_externals example_database
        "example_request 2 []" 7 "[example_team_institution_form]" "[form]" form fld] g f
    by simp
  then have q': "queryset fld = [TeamObj team_alpha, TeamObj team_beta]"
    by (simp add: s o)
  with q have "all_teams = [team_alpha, team_beta]"
    by (auto simp: map_eq_Cons_conv)
  with l u have "TeamChoiceField_label_from_instance fld (TeamObj team_alpha) = Inr ''Zebra''"
    and "TeamChoiceField_label_from_instance fld (TeamObj team_beta) = Inr ''Apple''"
    by (simp_all add: team_alpha_def team_beta_def)
  with u g f q' show ?thesis by blast
qed

subsection \<open>Iterating the options of a field\<close>

lemma yield_choices_values:
  "yield_choices (choice str fld) qs = Inr cs \<Longrightarrow>
     map fst cs = map (\<lambda>obj. ModelChoiceIteratorValue (pk obj) obj) qs"
proof (induction qs arbitrary: cs)
  case Nil
  then show ?case by simp
next
  case (Cons obj qs)
  then show ?case
    by (auto simp: choice_def split: sum.splits)
qed

lemma yield_choices_labels:
  assumes "\<forall>obj \<in> set qs. label_from_instance str fld obj = Inr (label obj)"
  shows "yield_choices (choice str fld) qs =
           Inr (map (\<lambda>obj. (ModelChoiceIteratorValue (pk obj) obj, label obj)) qs)"
  using assms by (induction qs) (simp_all add: choice_def)

lemma iterations_member:
  "r \<in> set (iterations n str fld) \<Longrightarrow> r = DedupModelChoiceIterator_iter str fld"
  by (induction n) auto

lemma length_iterations: "length (iterations n str fld) = n"
  by (induction n) auto

lemma no_blank_among_rows:
  "map fst cs = map (\<lambda>obj. ModelChoiceIteratorValue (pk obj) obj) qs \<Longrightarrow>
     filter (\<lambda>c. fst c = Str []) cs = []"
proof (induction cs arbitrary: qs)
  case Nil
  then show ?case by simp
next
  case (Cons c cs)
  then show ?case by (cases qs) auto
qed

text \<open>
  C5. However many times the options of a field are iterated, every iteration that runs
  to its end yields, when \<open>empty_label\<close> is set, the blank option first and only there,
  followed by one choice per row of the queryset in order; when \<open>empty_label\<close> is
  \<open>None\<close> it yields no blank option, only the choices of the rows. An iteration over a
  field that is not a team field always runs to its end.
\<close>

theorem blank_option_once_per_iteration:
  assumes "r \<in> set (iterations n str fld)"
  shows "(field_class fld \<noteq> TeamChoiceField \<longrightarrow> (\<exists>cs. r = Inr cs)) \<and>
         (\<forall>cs. r = Inr cs \<longrightarrow>
            (case empty_label fld of
               Some l \<Rightarrow>
                 cs \<noteq> [] \<and> hd cs = (Str [], l) \<and>
                 length (filter (\<lambda>c. fst c = Str []) cs) = 1 \<and>
                 map fst (tl cs) =
                   map (\<lambda>obj. ModelChoiceIteratorValue (pk obj) obj) (queryset fld)
             | None \<Rightarrow>
                 filter (\<lambda>c. fst c = Str []) cs = [] \<and>
                 map fst cs =
                   map (\<lambda>obj. ModelChoiceIteratorValue (pk obj) obj) (queryset fld)))"
proof -
  have r: "r = DedupModelChoiceIterator_iter str fld"
    using assms by (rule iterations_member)
  have total: "\<exists>cs. r = Inr cs" if "field_class fld \<noteq> TeamChoiceField"
  proof -
    have "\<forall>obj \<in> set (queryset fld). label_from_instance str fld obj = Inr (str obj)"
      using that by (cases "field_class fld") (simp_all add: label_from_instance_def)
    then have "yield_choices (choice str fld) (queryset fld) =
        Inr (map (\<lambda>obj. (ModelChoiceIteratorValue (pk obj) obj, str obj)) (queryset fld))"
      by (rule yield_choices_labels)
    then show ?thesis
      by (simp add: r DedupModelChoiceIterator_iter_def)
  qed
  have shape: "case empty_label fld of
               Some l \<Rightarrow>
                 cs \<noteq> [] \<and> hd cs = (Str [], l) \<and>
                 length (filter (\<lambda>c. fst c = Str []) cs) = 1 \<and>
                 map fst (tl cs) =
                   map (\<lambda>obj. ModelChoiceIteratorValue (pk obj) obj) (queryset fld)
             | None \<Rightarrow>
                 filter (\<lambda>c. fst c = Str []) cs = [] \<and>
                 map fst cs =
                   map (\<lambda>obj. ModelChoiceIteratorValue (pk obj) obj) (queryset fld)"
    if "r = Inr cs" for cs
  proof -
    from that r obtain rows where
      rows: "yield_choices (choice str fld) (queryset fld) = Inr rows"
      and cs: "cs = (case empty_label fld of None \<Rightarrow> [] | Some l \<Rightarrow> [(Str [], l)]) @ rows"
      by (auto simp: DedupModelChoiceIterator_iter_def split: sum.splits)
    note v = yield_choices_values [OF rows]
    show ?thesis
      using v no_blank_among_rows [OF v] by (simp add: cs split: option.splits)
  qed
  from total shape show ?thesis by blast
qed

theorem blank_option_once_per_iteration_witness:
  "DedupModelChoiceIterator_iter example_str example_institution_field
     \<in> set (iterations 3 example_str example_institution_field) \<and>
   (\<exists>cs. DedupModelChoiceIterator_iter example_str example_institution_field = Inr cs \<and>
      hd cs = (Str [], ''---------'') \<and>
      length (filter (\<lambda>c. fst c = Str []) cs) = 1 \<and>
      length cs = 3)"
proof -
  have m: "DedupModelChoiceIterator_iter example_str example_institution_field
     \<in> set (iterations 3 example_str example_institution_field)"
    by (simp add: numeral_3_eq_3)
  have c: "field_class example_institution_field \<noteq> TeamChoiceField"
    and e: "empty_label example_institution_field = Some ''---------''"
    and q: "length (queryset example_institution_field) = 2"
    by (simp_all add: example_institution_field_def)
  from blank_option_once_per_iteration [OF m] c obtain cs where
    cs: "DedupModelChoiceIterator_iter example_str example_institution_field = Inr cs"
    by blast
  with blank_option_once_per_iteration [OF m] e
  have h: "cs \<noteq> [] \<and> hd cs = (Str [], ''---------'') \<and>
      length (filter (\<lambda>c. fst c = Str []) cs) = 1 \<and>
      map fst (tl cs) = map (\<lambda>obj. ModelChoiceIteratorValue (pk obj) obj)
                          (queryset example_institution_field)"
    by simp
  then have "length (tl cs) = 2"
    using q by (metis length_map)
  with h have "length cs = 3" by (cases cs) simp_all
  with m cs h show ?thesis by blast
qed

subsection \<open>Labels of the team options\<close>

lemma team_field_choices:
  assumes "field_class fld = TeamChoiceField" and "use_code_names fld = Some b"
    and "queryset fld = map TeamObj teams"
  shows "DedupModelChoiceIterator_iter str fld =
           Inr ((case empty_label fld of None \<Rightarrow> [] | Some l \<Rightarrow> [(Str [], l)]) @
                map (\<lambda>team. (ModelChoiceIteratorValue (team_id team) (TeamObj team),
                              if b then code_name team else short_name team)) teams)"
proof -
  let ?label = "\<lambda>obj. case obj of TeamObj team \<Rightarrow> (if b then code_name team else short_name team)
                             | _ \<Rightarrow> []"
  have "\<forall>obj \<in> set (queryset fld). label_from_instance str fld obj = Inr (?label obj)"
    using assms
    by (auto simp: label_from_instance_def TeamChoiceField_label_from_instance_def)
  then have "yield_choices (choice str fld) (queryset fld) =
        Inr (map (\<lambda>obj. (ModelChoiceIteratorValue (pk obj) obj, ?label obj)) (queryset fld))"
    by (rule yield_choices_labels)
  then show ?thesis
    by (simp add: DedupModelChoiceIterator_iter_def assms(3) comp_def)
qed

text \<open>
  C6. In the adjudicator-team and team-institution views, the options of the team field of
  every form are the teams of the tournament, and the label of each is the team's code
  name when the code-name preference is enabled for the tournament and the requesting
  user, and its short name otherwise.
\<close>

theorem team_label_follows_preference:
  assumes "v = AdjudicatorTeamConflictsView \<or> v = TeamInstitutionConflictsView"
    and "get_formset v ext db req t formset = Inr fs" and "form \<in> set fs"
    and "map_of (form_fields form) ''team'' = Some fld"
    and "field_class fld = TeamChoiceField"
  shows "\<exists>teams. queryset fld = map TeamObj teams \<and> set teams = set (team_set db t) \<and>
           DedupModelChoiceIterator_iter str fld =
             Inr ((case empty_label fld of None \<Rightarrow> [] | Some l \<Rightarrow> [(Str [], l)]) @
                  map (\<lambda>team. (ModelChoiceIteratorValue (team_id team) (TeamObj team),
                                if use_team_code_names ext t True (user req)
                                then code_name team else short_name team)) teams)"
proof -
  obtain teams where q: "queryset fld = map TeamObj teams"
    and s: "set teams = set (team_set db t)"
    and u: "use_code_names fld = Some (use_team_code_names ext t True (user req))"
    using assms(1)
  proof
    assume "v = AdjudicatorTeamConflictsView"
    with AdjudicatorTeam_team_field [of ext db req t formset fs form fld] assms(2-4) that
    show thesis by simp
  next
    assume "v = TeamInstitutionConflictsView"
    with TeamInstitution_team_field [of ext db req t formset fs form fld] assms(2-4) that
    show thesis by simp
  qed
  from team_field_choices [OF assms(5) u q, of str] q s show ?thesis by blast
qed

lemma example_adjudicator_team_formset:
  "\<exists>form fld. get_formset AdjudicatorTeamConflictsView example_externals example_database
           (example_request 2 []) 7 [example_form] = Inr [form] \<and>
     map_of (form_fields form) ''team'' = Some fld \<and>
     field_class fld = TeamChoiceField \<and> empty_label fld = Some ''---------''"
  by (simp add: AdjudicatorTeamConflictsView_get_formset_def Let_def and_then_def
      setattr_field_def assign_field_def example_form_def example_field_def set_queryset_def
      BaseAdjudicatorConflictsView_get_formset_def)

theorem team_label_follows_preference_witness:
  "use_team_code_names example_externals 7 True (user (example_request 2 [])) \<and>
   (\<exists>form fld. get_formset AdjudicatorTeamConflictsView example_externals example_database
           (example_request 2 []) 7 [example_form] = Inr [form] \<and>
      map_of (form_fields form) ''team'' = Some fld \<and>
      field_class fld = TeamChoiceField \<and>
      (\<exists>teams. set teams = {team_alpha, team_beta} \<and>
         DedupModelChoiceIterator_iter example_str fld =
           Inr ((Str [], ''---------'') #
                map (\<lambda>team. (ModelChoiceIteratorValue (team_id team) (TeamObj team),
                              code_name team)) teams)))"
proof -
  obtain form fld where g: "get_formset AdjudicatorTeamConflictsView example_externals
      example_database (example_request 2 []) 7 [example_form] = Inr [form]"
    and f: "map_of (form_fields form) ''team'' = Some fld"
    and c: "field_class fld = TeamChoiceField" and e: "empty_label fld = Some ''---------''"
    using example_adjudicator_team_formset by blast
  have u: "use_team_code_names example_externals 7 True (user (example_request 2 []))"
    by (simp add: example_externals_def)
  have s: "set (team_set example_database 7) = {team_alpha, team_beta}"
    by (simp add: team_set_def example_database_def team_alpha_def team_beta_def
        team_gamma_def)
  from team_label_follows_preference [OF disjI1 [OF refl] g _ f c, of example_str] u e s
  have "\<exists>teams. set teams = {team_alpha, team_beta} \<and>
         DedupModelChoiceIterator_iter example_str fld =
           Inr ((Str [], ''---------'') #
                map (\<lambda>team. (ModelChoiceIteratorValue (team_id team) (TeamObj team),
                              code_name team)) teams)"
    by auto
  with u g f c show ?thesis by blast
qed

subsection \<open>Institution options\<close>

lemma set_adjudicator_set:
  "set (adjudicator_set db t) = {a \<in> set (Adjudicator_objects db). adjudicator_tournament a = t}"
  by (auto simp: adjudicator_set_def)

lemma set_team_set:
  "set (team_set db t) = {a \<in> set (Team_objects db). team_tournament a = t}"
  by (auto simp: team_set_def)

text \<open>
  C10. In the adjudicator-institution and team-institution views, the institution field of
  every form gets all institutions, whatever the tournament; the adjudicator field and
  the team field get only the adjudicators and teams of the current tournament.
\<close>

theorem institution_choices_unfiltered:
  assumes "v = AdjudicatorInstitutionConflictsView \<or> v = TeamInstitutionConflictsView"
    and "get_formset v ext db req t formset = Inr fs" and "form \<in> set fs"
  shows "(\<forall>fld. map_of (form_fields form) ''institution'' = Some fld \<longrightarrow>
            queryset fld = map InstitutionObj (Institution_objects db)) \<and>
         (v = AdjudicatorInstitutionConflictsView \<longrightarrow>
            (\<forall>fld. map_of (form_fields form) ''adjudicator'' = Some fld \<longrightarrow>
               set (queryset fld) =
                 AdjudicatorObj ` {a \<in> set (Adjudicator_objects db).
                                     adjudicator_tournament a = t})) \<and>
         (v = TeamInstitutionConflictsView \<longrightarrow>
            (\<forall>fld. map_of (form_fields form) ''team'' = Some fld \<longrightarrow>
               set (queryset fld) =
                 TeamObj ` {a \<in> set (Team_objects db). team_tournament a = t}))"
  using assms(1)
proof
  assume v: "v = AdjudicatorInstitutionConflictsView"
  with AdjudicatorInstitution_fields [of ext db req t formset fs form] assms(2,3)
  show ?thesis
    by (simp add: set_adjudicator_set)
next
  assume v: "v = TeamInstitutionConflictsView"
  with TeamInstitution_institution_field [of ext db req t formset fs form]
    TeamInstitution_team_field [of ext db req t formset fs form] assms(2,3)
  show ?thesis
    by (simp add: set_team_set)
qed

theorem institution_choices_unfiltered_witness:
  "\<exists>form ifld tfld. get_formset TeamInstitutionConflictsView example_externals example_database
           (example_request 2 []) 7 [example_team_institution_form] = Inr [form] \<and>
      map_of (form_fields form) ''institution'' = Some ifld \<and>
      queryset ifld = [InstitutionObj inst_one, InstitutionObj inst_two] \<and>
      map_of (form_fields form) ''team'' = Some tfld \<and>
      set (queryset tfld) = {TeamObj team_alpha, TeamObj team_beta} \<and>
      TeamObj team_gamma \<in> TeamObj ` set (Team_objects example_database)"
proof -
  obtain form tfld ifld where g: "get_formset TeamInstitutionConflictsView example_externals
      example_database (example_request 2 []) 7 [example_team_institution_form] = Inr [form]"
    and t: "map_of (form_fields form) ''team'' = Some tfld"
    and i: "map_of (form_fields form) ''institution'' = Some ifld"
    using example_team_institution_formset by blast
  have s: "{a \<in> set (Team_objects example_database). team_tournament a = 7}
             = {team_alpha, team_beta}"
    by (auto simp: example_database_def team_alpha_def team_beta_def team_gamma_def)
  from institution_choices_unfiltered [OF disjI2 [OF refl] g, of form] t i
  have "queryset ifld = map InstitutionObj (Institution_objects example_database)"
    and "set (queryset tfld) =
           TeamObj ` {a \<in> set (Team_objects example_database). team_tournament a = 7}"
    by simp_all
  then have "queryset ifld = [InstitutionObj inst_one, InstitutionObj inst_two]"
    and "set (queryset tfld) = {TeamObj team_alpha, TeamObj team_beta}"
    by (simp_all add: s) (simp add: example_database_def)
  moreover have "TeamObj team_gamma \<in> TeamObj ` set (Team_objects example_database)"
    by (simp add: example_database_def)
  ultimately show ?thesis using g t i by blast
qed

end
